theory Spec2Isabelle
  imports Main "HOL-Library.AList"
begin

section \<open>Values, objects and faults\<close>

text \<open>
  The embedding follows \<^verbatim>\<open>src/vm/src/VM.js\<close>.  Objects of the host program are
  identified by references; the behaviour of the collaborators of \<^verbatim>\<open>shine.VM\<close>
  (coroutines, closures, queued callbacks, the event emitter, the error normaliser,
  files and the file manager) is not part of the source file and is passed to every
  operation as a record of functions.
\<close>

type_synonym ref = nat

text \<open>JavaScript values, as far as \<^verbatim>\<open>VM.js\<close> inspects them.  Numbers are integers here.\<close>

datatype jsval = JUndefined | JNull | JBool bool | JNum int | JStr string | JObj ref

fun truthy :: "jsval \<Rightarrow> bool" where
  "truthy JUndefined = False"
| "truthy JNull = False"
| "truthy (JBool b) = b"
| "truthy (JNum n) = (n \<noteq> 0)"
| "truthy (JStr s) = (s \<noteq> [])"
| "truthy (JObj r) = True"

text \<open>
  The entries of \<^verbatim>\<open>_resumeStack\<close>: \<^verbatim>\<open>resume\<close> tells them apart with
  \<^verbatim>\<open>instanceof shine.Coroutine\<close>, \<^verbatim>\<open>instanceof shine.Closure\<close>, and otherwise calls
  the entry as a function.
\<close>

datatype resumable = Coroutine ref | Closure ref | Action ref

text \<open>The result of \<^verbatim>\<open>f._pc - 1\<close>: a number, or \<^verbatim>\<open>NaN\<close> when \<^verbatim>\<open>f._pc\<close> is undefined.\<close>

datatype number = Number int | NaN

text \<open>
  An entry of \<^verbatim>\<open>luaStack\<close>: a line of a native stack text, or the pair
  \<^verbatim>\<open>[f, f._pc - 1]\<close> pushed by \<^verbatim>\<open>resume\<close>.
\<close>

datatype frame = Line string | Frame resumable number

text \<open>An instance of \<^verbatim>\<open>shine.Error\<close>.\<close>

record shine_error =
  message :: string
  stack :: "string option"
  luaStack :: "frame list option"

text \<open>
  A thrown value: an instance of \<^verbatim>\<open>shine.Error\<close>; any other value that is neither
  \<^verbatim>\<open>null\<close> nor \<^verbatim>\<open>undefined\<close>, with its constructor name and what reading its
  \<^verbatim>\<open>message\<close> and \<^verbatim>\<open>stack\<close> properties gives (\<open>None\<close> for an undefined
  message, \<open>None\<close> for a falsy stack); or \<^verbatim>\<open>null\<close>/\<^verbatim>\<open>undefined\<close>.
\<close>

datatype thrown =
  Structured shine_error
| Native string "string option" "string option"
| Nullish

text \<open>
  The errors that \<^verbatim>\<open>VM.js\<close> constructs itself, \<^verbatim>\<open>new Error(msg)\<close> and
  \<^verbatim>\<open>new URIError(msg)\<close>; the stack text that the engine attaches to them is not
  modelled.
\<close>

definition new_Error :: "string \<Rightarrow> thrown" where
  "new_Error msg = Native ''Error'' (Some msg) None"

definition new_URIError :: "string \<Rightarrow> thrown" where
  "new_URIError msg = Native ''URIError'' (Some msg) None"

text \<open>
  The engine's fault on reading, writing or calling a property of \<^verbatim>\<open>undefined\<close> or
  \<^verbatim>\<open>null\<close>; the argument is the name of the property.
\<close>

definition TypeError :: "string \<Rightarrow> thrown" where
  "TypeError what = Native ''TypeError'' (Some what) None"

section \<open>The state of a VM and of the process around it\<close>

record shine_file =
  file_id :: nat
  data :: "nat option"

text \<open>\<^verbatim>\<open>new shine.Function(this, file, file.data, this._globals)\<close>.\<close>

datatype thread = Function shine_file nat "ref option"

record coConfig =
  uiOnly :: bool

text \<open>What \<^verbatim>\<open>window.setTimeout\<close> has been given and has not yet run.\<close>

datatype task = SuspendCheck | CoroutineStep coConfig thread

text \<open>
  Objects on the heap.  What calling an object does tells the kinds apart: an adapter
  function made by \<^verbatim>\<open>_bindLib\<close> calls a function of the library, a function of the
  host runs code of the host, \<^verbatim>\<open>Object.prototype.hasOwnProperty\<close> is the engine's, and
  any other object (an instance of \<^verbatim>\<open>shine.Table\<close>, a prototype, the file manager)
  cannot be called.  An object has a prototype, unless its prototype is \<^verbatim>\<open>null\<close>, and
  own properties, kept in the order of their creation.
\<close>

datatype kind = Plain | BoundFunction nat | HostFunction nat | HasOwnProperty

record obj =
  kind :: kind
  proto :: "ref option"
  props :: "(string \<times> jsval) list"

text \<open>
  One VM instance (the fields \<^verbatim>\<open>_status\<close> to \<^verbatim>\<open>fileManager\<close>; a field that is
  \<open>None\<close> is undefined or deleted), the requests its file manager has not answered
  yet, and the state of the process that the instance shares: the heap of objects, the
  host's pending timeouts, the static pools
  \<^verbatim>\<open>shine.Closure._graveyard\<close>, \<^verbatim>\<open>shine.Closure._current\<close> and
  \<^verbatim>\<open>shine.Coroutine._graveyard\<close>, and a journal that the host program keeps for
  itself (no line of \<^verbatim>\<open>VM.js\<close> reads or writes it).  The process has the objects
  \<^verbatim>\<open>Object.prototype\<close>, \<^verbatim>\<open>shine.Table.prototype\<close> and
  \<^verbatim>\<open>Function.prototype\<close>.  A function of the library or of the host that is called in
  the place of \<^verbatim>\<open>hasOwnProperty\<close>, with a key, throws or returns a value that is truthy
  or not: \<open>guard_answers\<close> has what it does, and such a call is taken to change nothing
  in the state.
\<close>

record world =
  status :: nat
  resumeStack :: "resumable list"
  callbackQueue :: "ref list"
  coroutineStack :: "ref list option"
  env :: "(string \<times> jsval) list option"
  globals :: "ref option"
  files :: "shine_file list option"
  thread :: "thread option"
  fileManager :: "ref option"
  pending_loads :: "(string \<times> jsval \<times> coConfig option) list"
  heap :: "ref \<Rightarrow> obj option"
  next_ref :: ref
  timeouts :: "task list"
  closure_graveyard :: "ref list"
  closure_current :: "ref option"
  coroutine_graveyard :: "ref list"
  journal :: "nat list"
  Object_prototype :: ref
  Table_prototype :: ref
  Function_prototype :: ref
  guard_answers :: "kind \<Rightarrow> string \<Rightarrow> thrown + bool"

datatype outcome = Returns world | Throws thrown world

fun world_of :: "outcome \<Rightarrow> world" where
  "world_of (Returns w) = w"
| "world_of (Throws e w) = w"

datatype payload = FileLoaded shine_file | Executing thread "coConfig option"

text \<open>The calls that cross the boundary of \<^verbatim>\<open>VM.js\<close>, in the order they are made.\<close>

datatype event =
  Driven resumable
| Invoked ref
| Normalized thrown
| Constructed thread
| Triggered string payload
| Called thread
| Stepped thread
| FileDisposed shine_file
| ThreadDisposed thread
| FileManagerDisposed

text \<open>
  The collaborators.  A call may change any part of the state and may throw.
  \<^verbatim>\<open>shine.Error.catchExecutionError\<close> is a static function of the fault alone: it
  returns (\<open>None\<close>) or throws.
\<close>

record ext =
  coroutine_resume :: "ref \<Rightarrow> world \<Rightarrow> outcome"
  closure_run :: "ref \<Rightarrow> world \<Rightarrow> outcome"
  action_call :: "ref \<Rightarrow> world \<Rightarrow> outcome"
  unit_pc :: "resumable \<Rightarrow> world \<Rightarrow> int option"
  callback_call :: "ref \<Rightarrow> world \<Rightarrow> outcome"
  catchExecutionError :: "thrown \<Rightarrow> thrown option"
  trigger :: "string \<Rightarrow> payload \<Rightarrow> world \<Rightarrow> outcome"
  thread_call :: "thread \<Rightarrow> world \<Rightarrow> outcome"
  coroutine_step :: "thread \<Rightarrow> world \<Rightarrow> outcome"
  coroutine_status :: "thread \<Rightarrow> world \<Rightarrow> nat"
  file_dispose :: "shine_file \<Rightarrow> world \<Rightarrow> outcome"
  thread_dispose :: "thread \<Rightarrow> world \<Rightarrow> outcome"
  fileManager_dispose :: "world \<Rightarrow> outcome"

section \<open>Status constants\<close>

definition RUNNING :: nat where "RUNNING = 0"
definition SUSPENDING :: nat where "SUSPENDING = 1"
definition RESUMING :: nat where "RESUMING = 3"
definition DEAD :: nat where "DEAD = 4"

section \<open>suspend and resume\<close>

definition suspend :: "world \<Rightarrow> world" where
  "suspend w = w\<lparr>status := SUSPENDING, timeouts := timeouts w @ [SuspendCheck]\<rparr>"


text \<open>
  \<^verbatim>\<open>while (this._callbackQueue[0]) this._callbackQueue.shift()();\<close>
  The entries of the queue are function objects, hence truthy, so the loop runs until the
  queue is empty.  A callback may enqueue further callbacks, so the loop need not end:
  the result is \<open>None\<close> then.  The second argument collects the calls made so far.
\<close>

partial_function (option) drain :: "ext \<Rightarrow> event list \<Rightarrow> world \<Rightarrow> (event list \<times> outcome) option" where
  "drain x tr w =
     (case callbackQueue w of
        [] \<Rightarrow> Some (tr, Returns w)
      | c # cs \<Rightarrow>
          (case callback_call x c (w\<lparr>callbackQueue := cs\<rparr>) of
             Throws e w' \<Rightarrow> Some (tr @ [Invoked c], Throws e w')
           | Returns w' \<Rightarrow> drain x (tr @ [Invoked c]) w'))"

text \<open>Lines 215 to 221.\<close>

definition redrive :: "ext \<Rightarrow> resumable \<Rightarrow> world \<Rightarrow> outcome" where
  "redrive x f w =
     (case f of
        Coroutine c \<Rightarrow> coroutine_resume x c w
      | Closure c \<Rightarrow> closure_run x c w
      | Action c \<Rightarrow> action_call x c w)"

text \<open>\<^verbatim>\<open>String.prototype.split\<close> with the separator \<^verbatim>\<open>'\n'\<close>.\<close>

fun split_lines :: "string \<Rightarrow> string list" where
  "split_lines [] = [[]]"
| "split_lines (c # cs) =
     (if c = CHR 0x0A then [] # split_lines cs
      else (case split_lines cs of l # ls \<Rightarrow> (c # l) # ls | [] \<Rightarrow> [[c]]))"

text \<open>
  Lines 224 to 230: a fault that is not an instance of \<^verbatim>\<open>shine.Error\<close> is replaced by
  a new \<^verbatim>\<open>shine.Error\<close>.  Reading \<^verbatim>\<open>e.stack\<close> of \<^verbatim>\<open>null\<close> or \<^verbatim>\<open>undefined\<close>
  is itself a fault, raised inside the \<^verbatim>\<open>catch\<close> block.
\<close>

definition host_call_error :: "thrown \<Rightarrow> thrown + shine_error" where
  "host_call_error e =
     (case e of
        Structured se \<Rightarrow> Inr se
      | Nullish \<Rightarrow> Inl (TypeError ''stack'')
      | Native n m st \<Rightarrow>
          (let stack = (case st of None \<Rightarrow> [] | Some s \<Rightarrow> s) in
           Inr \<lparr>message = ''Error in host call: '' @ (case m of None \<Rightarrow> ''undefined'' | Some t \<Rightarrow> t),
                stack = Some stack,
                luaStack = Some (map Line (split_lines stack))\<rparr>))"

text \<open>Lines 232 and 233.\<close>

definition push_frame :: "resumable \<Rightarrow> int option \<Rightarrow> shine_error \<Rightarrow> shine_error" where
  "push_frame f pc e =
     e\<lparr>luaStack := Some ((case luaStack e of None \<Rightarrow> [] | Some fs \<Rightarrow> fs)
          @ [Frame f (case pc of None \<Rightarrow> NaN | Some n \<Rightarrow> Number (n - 1))])\<rparr>"

text \<open>
  Lines 208 to 237, the part of \<^verbatim>\<open>resume\<close> before the callback queue is drained.
  \<^verbatim>\<open>_resumeStack\<close> is kept in the order of the array: \<^verbatim>\<open>pop\<close> takes the last
  element, and gives \<^verbatim>\<open>undefined\<close> on the empty array.  The entries are objects and
  functions, hence truthy, so \<^verbatim>\<open>if (f)\<close> tests whether there was an entry.
\<close>

definition resume_step :: "ext \<Rightarrow> world \<Rightarrow> event list \<times> outcome" where
  "resume_step x w =
     (let w1 = w\<lparr>status := RESUMING\<rparr> in
      if resumeStack w1 = [] then ([], Returns w1)
      else
        (let f = last (resumeStack w1);
             w2 = w1\<lparr>resumeStack := butlast (resumeStack w1)\<rparr> in
         case redrive x f w2 of
           Returns w3 \<Rightarrow> ([Driven f], Returns w3)
         | Throws e w3 \<Rightarrow>
             (case host_call_error e of
                Inl t \<Rightarrow> ([Driven f], Throws t w3)
              | Inr se \<Rightarrow>
                  (let e' = Structured (push_frame f (unit_pc x f w3) se) in
                   case catchExecutionError x e' of
                     Some e'' \<Rightarrow> ([Driven f, Normalized e'], Throws e'' w3)
                   | None \<Rightarrow> ([Driven f, Normalized e'], Returns w3)))))"

definition resume :: "ext \<Rightarrow> world \<Rightarrow> (event list \<times> outcome) option" where
  "resume x w =
     (case resume_step x w of
        (tr, Returns w') \<Rightarrow> drain x tr w'
      | (tr, Throws e w') \<Rightarrow> Some (tr, Throws e w'))"

text \<open>
  The host calling \<^verbatim>\<open>resume()\<close> \<open>n\<close> times in a row, going on after a call that
  threw.
\<close>

fun resumes :: "ext \<Rightarrow> nat \<Rightarrow> world \<Rightarrow> (event list \<times> world) option" where
  "resumes x 0 w = Some ([], w)"
| "resumes x (Suc n) w =
     (case resume x w of
        None \<Rightarrow> None
      | Some (tr, out) \<Rightarrow>
          (case resumes x n (world_of out) of
             None \<Rightarrow> None
           | Some (tr', w') \<Rightarrow> Some (tr @ tr', w')))"

text \<open>The units re-driven and the callbacks invoked, in the order of the calls.\<close>

fun driven :: "event list \<Rightarrow> resumable list" where
  "driven [] = []"
| "driven (Driven f # es) = f # driven es"
| "driven (e # es) = driven es"


subsection \<open>What a property may require of the collaborators\<close>

text \<open>No unit and no callback writes \<^verbatim>\<open>_status\<close>.\<close>

definition keeps_status :: "ext \<Rightarrow> bool" where
  "keeps_status x \<longleftrightarrow>
     (\<forall>c w. status (world_of (coroutine_resume x c w)) = status w) \<and>
     (\<forall>c w. status (world_of (closure_run x c w)) = status w) \<and>
     (\<forall>c w. status (world_of (action_call x c w)) = status w) \<and>
     (\<forall>c w. status (world_of (callback_call x c w)) = status w)"

text \<open>No unit and no callback pushes to or pops from \<^verbatim>\<open>_resumeStack\<close>.\<close>

definition keeps_resumeStack :: "ext \<Rightarrow> bool" where
  "keeps_resumeStack x \<longleftrightarrow>
     (\<forall>c w. resumeStack (world_of (coroutine_resume x c w)) = resumeStack w) \<and>
     (\<forall>c w. resumeStack (world_of (closure_run x c w)) = resumeStack w) \<and>
     (\<forall>c w. resumeStack (world_of (action_call x c w)) = resumeStack w) \<and>
     (\<forall>c w. resumeStack (world_of (callback_call x c w)) = resumeStack w)"

text \<open>
  The units keep a record of their runs: \<open>lg\<close> reads the record from a state, and a unit
  \<open>f\<close> that is run adds \<open>tag f\<close> at its end.  The callbacks do not write the record, and
  the record is no part of what \<^verbatim>\<open>resume\<close> itself writes (the status, the resume
  stack, the callback queue).
\<close>

definition units_record :: "ext \<Rightarrow> (world \<Rightarrow> 'a list) \<Rightarrow> (resumable \<Rightarrow> 'a) \<Rightarrow> bool" where
  "units_record x lg tag \<longleftrightarrow>
     (\<forall>c w. lg (world_of (coroutine_resume x c w)) = lg w @ [tag (Coroutine c)]) \<and>
     (\<forall>c w. lg (world_of (closure_run x c w)) = lg w @ [tag (Closure c)]) \<and>
     (\<forall>c w. lg (world_of (action_call x c w)) = lg w @ [tag (Action c)]) \<and>
     (\<forall>c w. lg (world_of (callback_call x c w)) = lg w) \<and>
     (\<forall>w s t q. lg (w\<lparr>status := s, resumeStack := t, callbackQueue := q\<rparr>) = lg w)"

text \<open>Every callback returns.\<close>

definition callbacks_return :: "ext \<Rightarrow> bool" where
  "callbacks_return x \<longleftrightarrow> (\<forall>c w. \<exists>w'. callback_call x c w = Returns w')"

text \<open>
  The drain loop has a variant: a measure of the state that every callback taken from
  the head of the queue, if it returns, leaves smaller than it was before the callback
  was taken.  A callback may enqueue callbacks, as long as the measure accounts for them.
\<close>

definition drain_variant :: "ext \<Rightarrow> (world \<Rightarrow> nat) \<Rightarrow> bool" where
  "drain_variant x m \<longleftrightarrow>
     (\<forall>c q w w'. callbackQueue w = c # q \<longrightarrow>
        callback_call x c (w\<lparr>callbackQueue := q\<rparr>) = Returns w' \<longrightarrow> m w' < m w)"

subsection \<open>The order of service of a queue\<close>





section \<open>execute and load\<close>

text \<open>
  The closure \<^verbatim>\<open>resume\<close> of \<^verbatim>\<open>execute\<close> (lines 146 to 149): one step of the
  coroutine made by \<^verbatim>\<open>shine.lib.coroutine.wrap\<close> for the thread, and, under
  \<^verbatim>\<open>uiOnly\<close>, a timeout for the next step unless the coroutine is dead.
\<close>

definition co_resume :: "ext \<Rightarrow> coConfig \<Rightarrow> thread \<Rightarrow> world \<Rightarrow> event list \<times> outcome" where
  "co_resume x cfg co w =
     (case coroutine_step x co w of
        Throws e w' \<Rightarrow> ([Stepped co], Throws e w')
      | Returns w' \<Rightarrow>
          ([Stepped co],
           Returns (if uiOnly cfg \<and> coroutine_status x co w' \<noteq> DEAD
                    then w'\<lparr>timeouts := timeouts w' @ [CoroutineStep cfg co]\<rparr> else w')))"


text \<open>Lines 140 to 156: the \<^verbatim>\<open>try\<close> block and its \<^verbatim>\<open>catch\<close>.\<close>

definition run_thread :: "ext \<Rightarrow> coConfig option \<Rightarrow> thread \<Rightarrow> world \<Rightarrow> event list \<times> outcome" where
  "run_thread x coCfg t w =
     (case (case coCfg of
              None \<Rightarrow> ([Called t], thread_call x t w)
            | Some cfg \<Rightarrow> co_resume x cfg t w) of
        (tr, Returns w') \<Rightarrow> (tr, Returns w')
      | (tr, Throws e w') \<Rightarrow>
          (case catchExecutionError x e of
             None \<Rightarrow> (tr @ [Normalized e], Returns w')
           | Some e' \<Rightarrow> (tr @ [Normalized e], Throws e' w')))"

text \<open>Lines 137 to 156, for a file whose data is \<open>d\<close>.\<close>

definition execute_file :: "ext \<Rightarrow> coConfig option \<Rightarrow> shine_file \<Rightarrow> nat \<Rightarrow> world \<Rightarrow> event list \<times> outcome" where
  "execute_file x coCfg f d w =
     (let t = Function f d (globals w);
          w1 = w\<lparr>thread := Some t\<rparr> in
      case trigger x ''executing'' (Executing t coCfg) w1 of
        Throws e w2 \<Rightarrow> ([Constructed t, Triggered ''executing'' (Executing t coCfg)], Throws e w2)
      | Returns w2 \<Rightarrow>
          (case run_thread x coCfg t w2 of
             (tr, out) \<Rightarrow> (Constructed t # Triggered ''executing'' (Executing t coCfg) # tr, out)))"

text \<open>The loop of lines 130 to 158 over the array \<^verbatim>\<open>files\<close>.\<close>

fun execute_files :: "ext \<Rightarrow> coConfig option \<Rightarrow> shine_file list \<Rightarrow> world \<Rightarrow> event list \<times> outcome" where
  "execute_files x coCfg [] w = ([], Returns w)"
| "execute_files x coCfg (f # fs) w =
     (case data f of
        None \<Rightarrow> ([], Throws (new_Error ''Tried to execute file before data loaded.'') w)
      | Some d \<Rightarrow>
          (case execute_file x coCfg f d w of
             (tr, Throws e w') \<Rightarrow> (tr, Throws e w')
           | (tr, Returns w') \<Rightarrow>
               (case execute_files x coCfg fs w' of (tr', out) \<Rightarrow> (tr @ tr', out))))"

text \<open>
  \<^verbatim>\<open>execute(coConfig, file)\<close>.  Without a file the targets are \<^verbatim>\<open>this._files\<close>;
  reading \<^verbatim>\<open>length\<close> of an undefined \<^verbatim>\<open>_files\<close> is a fault of the engine.
\<close>

definition execute :: "ext \<Rightarrow> coConfig option \<Rightarrow> shine_file option \<Rightarrow> world \<Rightarrow> event list \<times> outcome" where
  "execute x coCfg file w =
     (case (case file of Some f \<Rightarrow> Some [f] | None \<Rightarrow> files w) of
        None \<Rightarrow> ([], Throws (TypeError ''length'') w)
      | Some fs \<Rightarrow>
          if fs = [] then ([], Throws (new_Error ''No files loaded.'') w)
          else execute_files x coCfg fs w)"

text \<open>
  \<^verbatim>\<open>load(url, execute, coConfig)\<close> hands the request and its callback to the file
  manager.
\<close>

definition load :: "string \<Rightarrow> jsval \<Rightarrow> coConfig option \<Rightarrow> world \<Rightarrow> outcome" where
  "load url exec coCfg w =
     (case fileManager w of
        None \<Rightarrow> Throws (TypeError ''load'') w
      | Some fm \<Rightarrow> Returns (w\<lparr>pending_loads := pending_loads w @ [(url, exec, coCfg)]\<rparr>))"

text \<open>
  The callback of \<^verbatim>\<open>load\<close> (lines 104 to 109), called by the file manager with an
  error (\<open>None\<close> when \<^verbatim>\<open>err\<close> is falsy) and the file.
\<close>

definition load_callback ::
  "ext \<Rightarrow> string \<Rightarrow> jsval \<Rightarrow> coConfig option \<Rightarrow> string option \<Rightarrow> shine_file \<Rightarrow> world \<Rightarrow> event list \<times> outcome" where
  "load_callback x url exec coCfg err f w =
     (case err of
        Some er \<Rightarrow> ([], Throws (new_URIError (''Failed to load file: '' @ url @ '' ('' @ er @ '')'')) w)
      | None \<Rightarrow>
          (case trigger x ''file-loaded'' (FileLoaded f) w of
             Throws e w' \<Rightarrow> ([Triggered ''file-loaded'' (FileLoaded f)], Throws e w')
           | Returns w' \<Rightarrow>
               if truthy exec \<or> exec = JUndefined
               then (case execute x coCfg (Some f) w' of
                       (tr, out) \<Rightarrow> (Triggered ''file-loaded'' (FileLoaded f) # tr, out))
               else ([Triggered ''file-loaded'' (FileLoaded f)], Returns w')))"

text \<open>The threads constructed, in the order of their construction.\<close>

fun constructed :: "event list \<Rightarrow> thread list" where
  "constructed [] = []"
| "constructed (Constructed t # es) = t # constructed es"
| "constructed (e # es) = constructed es"

text \<open>The file a thread was constructed for.\<close>

fun thread_file :: "thread \<Rightarrow> shine_file" where
  "thread_file (Function f d g) = f"

section \<open>dispose\<close>

text \<open>Line 252.\<close>

fun dispose_files :: "ext \<Rightarrow> shine_file list \<Rightarrow> world \<Rightarrow> event list \<times> outcome" where
  "dispose_files x [] w = ([], Returns w)"
| "dispose_files x (f # fs) w =
     (case file_dispose x f w of
        Throws e w' \<Rightarrow> ([FileDisposed f], Throws e w')
      | Returns w' \<Rightarrow> (case dispose_files x fs w' of (tr, out) \<Rightarrow> (FileDisposed f # tr, out)))"

text \<open>Line 254.\<close>

definition dispose_thread :: "ext \<Rightarrow> world \<Rightarrow> event list \<times> outcome" where
  "dispose_thread x w =
     (case thread w of
        None \<Rightarrow> ([], Returns w)
      | Some t \<Rightarrow> ([ThreadDisposed t], thread_dispose x t w))"

text \<open>
  Lines 256 to 269.  \<^verbatim>\<open>this.fileManager.dispose()\<close> is a fault of the engine when
  \<^verbatim>\<open>fileManager\<close> is undefined.
\<close>

definition dispose_rest :: "ext \<Rightarrow> world \<Rightarrow> event list \<times> outcome" where
  "dispose_rest x w =
     (let w1 = w\<lparr>files := None, thread := None, globals := None, env := None,
                 coroutineStack := None\<rparr> in
      case fileManager w1 of
        None \<Rightarrow> ([], Throws (TypeError ''dispose'') w1)
      | Some fm \<Rightarrow>
          (case fileManager_dispose x w1 of
             Throws e w2 \<Rightarrow> ([FileManagerDisposed], Throws e w2)
           | Returns w2 \<Rightarrow>
               ([FileManagerDisposed],
                Returns (w2\<lparr>fileManager := None, closure_graveyard := [],
                            closure_current := None, coroutine_graveyard := []\<rparr>))))"

definition and_then :: "event list \<times> outcome \<Rightarrow> (world \<Rightarrow> event list \<times> outcome) \<Rightarrow> event list \<times> outcome" where
  "and_then r k =
     (case r of
        (tr, Throws e w) \<Rightarrow> (tr, Throws e w)
      | (tr, Returns w) \<Rightarrow> (case k w of (tr', out) \<Rightarrow> (tr @ tr', out)))"

definition dispose :: "ext \<Rightarrow> world \<Rightarrow> event list \<times> outcome" where
  "dispose x w =
     and_then (dispose_files x (case files w of None \<Rightarrow> [] | Some fs \<Rightarrow> fs) w)
       (\<lambda>w1. and_then (dispose_thread x w1) (dispose_rest x))"

text \<open>The file manager, when disposed, leaves \<^verbatim>\<open>_files\<close> and \<^verbatim>\<open>_thread\<close> of the VM alone.\<close>

definition fileManager_keeps_files :: "ext \<Rightarrow> bool" where
  "fileManager_keeps_files x \<longleftrightarrow>
     (\<forall>w. files (world_of (fileManager_dispose x w)) = files w \<and>
          thread (world_of (fileManager_dispose x w)) = thread w)"

section \<open>The global namespace\<close>

subsection \<open>Objects, their prototypes and their properties\<close>

definition own_prop :: "world \<Rightarrow> ref \<Rightarrow> string \<Rightarrow> jsval option" where
  "own_prop w r k = (case heap w r of None \<Rightarrow> None | Some ob \<Rightarrow> map_of (props ob) k)"

definition proto_of :: "world \<Rightarrow> ref \<Rightarrow> ref option" where
  "proto_of w r = (case heap w r of None \<Rightarrow> None | Some ob \<Rightarrow> proto ob)"

definition kind_of :: "world \<Rightarrow> ref \<Rightarrow> kind option" where
  "kind_of w r = map_option kind (heap w r)"

text \<open>
  The prototype chain of an object: its prototype, the prototype of that, and so on.  The
  chain has no object twice, so it has fewer objects than there are references in use.
\<close>

fun proto_chain :: "nat \<Rightarrow> world \<Rightarrow> ref \<Rightarrow> ref list" where
  "proto_chain 0 w r = []"
| "proto_chain (Suc n) w r =
     (case proto_of w r of None \<Rightarrow> [] | Some p \<Rightarrow> p # proto_chain n w p)"

definition prototypes :: "world \<Rightarrow> ref \<Rightarrow> ref list" where
  "prototypes w r = proto_chain (next_ref w) w r"

text \<open>The first of the objects that has an own property \<open>k\<close> gives its value.\<close>

fun first_own :: "world \<Rightarrow> string \<Rightarrow> ref list \<Rightarrow> jsval option" where
  "first_own w k [] = None"
| "first_own w k (r # rs) = (case own_prop w r k of Some v \<Rightarrow> Some v | None \<Rightarrow> first_own w k rs)"

text \<open>
  The accessor \<^verbatim>\<open>__proto__\<close> of \<^verbatim>\<open>Object.prototype\<close> is what an object \<open>r\<close> has under
  that name when \<^verbatim>\<open>Object.prototype\<close> is the object or is on its chain, and neither the
  object nor an object of the chain has a property of the name.
\<close>

definition has_proto_accessor :: "world \<Rightarrow> ref \<Rightarrow> bool" where
  "has_proto_accessor w r \<longleftrightarrow>
     first_own w ''__proto__'' (r # prototypes w r) = None \<and>
     Object_prototype w \<in> set (r # prototypes w r)"

text \<open>
  \<^verbatim>\<open>o[k]\<close> for an object \<open>o\<close>: the own property, or else the property of the first
  object of the prototype chain that has one; the getter of \<^verbatim>\<open>__proto__\<close> gives the
  prototype of \<open>o\<close>; \<^verbatim>\<open>undefined\<close> when there is no such property.
\<close>

definition get_prop :: "world \<Rightarrow> ref \<Rightarrow> string \<Rightarrow> jsval" where
  "get_prop w r k =
     (case first_own w k (r # prototypes w r) of
        Some v \<Rightarrow> v
      | None \<Rightarrow>
          if k = ''__proto__'' \<and> has_proto_accessor w r
          then (case proto_of w r of None \<Rightarrow> JNull | Some p \<Rightarrow> JObj p)
          else JUndefined)"

text \<open>The own property \<open>k\<close> of \<open>r\<close> is replaced, or added after the others.\<close>

definition set_own :: "ref \<Rightarrow> string \<Rightarrow> jsval \<Rightarrow> world \<Rightarrow> world" where
  "set_own r k v w =
     (case heap w r of
        None \<Rightarrow> w
      | Some ob \<Rightarrow> w\<lparr>heap := (heap w)(r \<mapsto> ob\<lparr>props := AList.update k v (props ob)\<rparr>)\<rparr>)"

text \<open>
  The setter of \<^verbatim>\<open>__proto__\<close>: an object or \<^verbatim>\<open>null\<close> becomes the prototype of \<open>r\<close>, any
  other value is ignored; a prototype that is \<open>r\<close> or has \<open>r\<close> on its chain is a fault of
  the engine.
\<close>

definition set_prototype :: "ref \<Rightarrow> jsval \<Rightarrow> world \<Rightarrow> thrown + world" where
  "set_prototype r v w =
     (case heap w r of
        None \<Rightarrow> Inr w
      | Some ob \<Rightarrow>
          (case v of
             JObj p \<Rightarrow>
               if r \<in> set (p # prototypes w p) then Inl (TypeError ''__proto__'')
               else Inr (w\<lparr>heap := (heap w)(r \<mapsto> ob\<lparr>proto := Some p\<rparr>)\<rparr>)
           | JNull \<Rightarrow> Inr (w\<lparr>heap := (heap w)(r \<mapsto> ob\<lparr>proto := None\<rparr>)\<rparr>)
           | _ \<Rightarrow> Inr w))"

text \<open>
  \<^verbatim>\<open>o[k] = v\<close>: the assignment to \<^verbatim>\<open>__proto__\<close> runs the inherited setter and makes
  no own property; any other assignment makes or replaces the own property.  (No object
  is frozen, and the prototypes have no other setter and no property that cannot be
  written.)
\<close>

definition set_prop :: "ref \<Rightarrow> string \<Rightarrow> jsval \<Rightarrow> world \<Rightarrow> thrown + world" where
  "set_prop r k v w =
     (if k = ''__proto__'' \<and> has_proto_accessor w r then set_prototype r v w
      else Inr (set_own r k v w))"

text \<open>
  The keys that \<^verbatim>\<open>for (var i in o)\<close> visits: the own properties.  (The properties in
  the model can all be enumerated; an inherited property is taken not to be visited.)
\<close>

definition own_keys :: "world \<Rightarrow> ref \<Rightarrow> string list" where
  "own_keys w r = (case heap w r of None \<Rightarrow> [] | Some ob \<Rightarrow> map fst (props ob))"

text \<open>\<^verbatim>\<open>v instanceof shine.Table\<close>: \<^verbatim>\<open>shine.Table.prototype\<close> is on the chain of \<open>v\<close>.\<close>

definition instanceof_Table :: "world \<Rightarrow> jsval \<Rightarrow> bool" where
  "instanceof_Table w v =
     (case v of JObj r \<Rightarrow> Table_prototype w \<in> set (prototypes w r) | _ \<Rightarrow> False)"

text \<open>
  \<^verbatim>\<open>v.k\<close> and \<^verbatim>\<open>v.k = u\<close> for any value \<open>v\<close>: a fault of the engine on
  \<^verbatim>\<open>undefined\<close> and \<^verbatim>\<open>null\<close>; a primitive value has no such property and drops
  the assignment.
\<close>

definition read_member :: "world \<Rightarrow> jsval \<Rightarrow> string \<Rightarrow> thrown + jsval" where
  "read_member w v k =
     (case v of
        JUndefined \<Rightarrow> Inl (TypeError k)
      | JNull \<Rightarrow> Inl (TypeError k)
      | JObj r \<Rightarrow> Inr (get_prop w r k)
      | _ \<Rightarrow> Inr JUndefined)"

definition write_member :: "jsval \<Rightarrow> string \<Rightarrow> jsval \<Rightarrow> world \<Rightarrow> thrown + world" where
  "write_member v k u w =
     (case v of
        JUndefined \<Rightarrow> Inl (TypeError k)
      | JNull \<Rightarrow> Inl (TypeError k)
      | JObj r \<Rightarrow> set_prop r k u w
      | _ \<Rightarrow> Inr w)"

text \<open>A new object, at a reference that no object has had.\<close>

definition alloc :: "kind \<Rightarrow> ref option \<Rightarrow> (string \<times> jsval) list \<Rightarrow> world \<Rightarrow> ref \<times> world" where
  "alloc k p ps w =
     (next_ref w,
      w\<lparr>heap := (heap w)(next_ref w \<mapsto> \<lparr>kind = k, proto = p, props = ps\<rparr>),
        next_ref := Suc (next_ref w)\<rparr>)"

text \<open>
  Modelled from the spec: \<^verbatim>\<open>new shine.Table(obj)\<close>; the class \<^verbatim>\<open>shine.Table\<close> is
  not in the source file.  The spec has the result of \<^verbatim>\<open>_bindLib\<close> "wrapped as a
  single table value" and the global namespace "a mapping from name (string) to guest
  value"; \<^verbatim>\<open>_resetGlobals\<close> reads and writes the entries of the table as properties of
  the object.  So the table is a new object that is an instance of \<^verbatim>\<open>shine.Table\<close>
  and has the properties of \<open>obj\<close>.
\<close>

definition new_Table :: "(string \<times> jsval) list \<Rightarrow> world \<Rightarrow> ref \<times> world" where
  "new_Table ps w = alloc Plain (Some (Table_prototype w)) ps w"

subsection \<open>The guard of the loops\<close>

text \<open>
  \<^verbatim>\<open>o.hasOwnProperty(i)\<close> for a key \<open>i\<close> that the loop over the own properties of \<open>o\<close>
  visits, where \<open>v\<close> is what \<^verbatim>\<open>o.hasOwnProperty\<close> reads: the function of the engine
  answers \<^verbatim>\<open>true\<close>; another function answers what it answers; a value that is not a
  function cannot be called, which is a fault of the engine.
\<close>

definition guard_call :: "world \<Rightarrow> jsval \<Rightarrow> string \<Rightarrow> thrown + bool" where
  "guard_call w v i =
     (case v of
        JObj r \<Rightarrow>
          (case kind_of w r of
             Some HasOwnProperty \<Rightarrow> Inr True
           | Some (BoundFunction f) \<Rightarrow> guard_answers w (BoundFunction f) i
           | Some (HostFunction f) \<Rightarrow> guard_answers w (HostFunction f) i
           | _ \<Rightarrow> Inl (TypeError ''hasOwnProperty''))
      | _ \<Rightarrow> Inl (TypeError ''hasOwnProperty''))"

text \<open>The guard on an object of the heap.\<close>

definition own_guard :: "world \<Rightarrow> ref \<Rightarrow> string \<Rightarrow> thrown + bool" where
  "own_guard w r i = guard_call w (get_prop w r ''hasOwnProperty'') i"

text \<open>
  The guard on the host's environment, a plain object that is given by its own
  properties: its own property \<^verbatim>\<open>hasOwnProperty\<close>, if it has one, hides the function
  that it inherits from \<^verbatim>\<open>Object.prototype\<close>.
\<close>

definition env_guard :: "world \<Rightarrow> (string \<times> jsval) list \<Rightarrow> string \<Rightarrow> thrown + bool" where
  "env_guard w ps i =
     guard_call w
       (case map_of ps ''hasOwnProperty'' of
          Some v \<Rightarrow> v
        | None \<Rightarrow> get_prop w (Object_prototype w) ''hasOwnProperty'') i"

subsection \<open>Binding the library\<close>

text \<open>
  The shapes of an entry of a library description that \<^verbatim>\<open>_bindLib\<close> tells apart: a
  \<^verbatim>\<open>shine.Table\<close> (given by the properties of the object that
  \<^verbatim>\<open>shine.utils.toObject\<close> makes of it), a plain object, a function, anything else.
\<close>

datatype lib_entry =
  TableLiteral "(string \<times> jsval) list"
| NestedLibrary "(string \<times> lib_entry) list"
| NativeFunction nat
| Scalar jsval

text \<open>
  The guard on a library description, a plain object: an entry \<^verbatim>\<open>hasOwnProperty\<close> of
  the description hides the inherited function, and is called if it is a function.
\<close>

definition lib_guard :: "world \<Rightarrow> (string \<times> lib_entry) list \<Rightarrow> string \<Rightarrow> thrown + bool" where
  "lib_guard w lib i =
     (case map_of lib ''hasOwnProperty'' of
        None \<Rightarrow> guard_call w (get_prop w (Object_prototype w) ''hasOwnProperty'') i
      | Some (NativeFunction f) \<Rightarrow> guard_answers w (BoundFunction f) i
      | Some (Scalar v) \<Rightarrow> guard_call w v i
      | Some _ \<Rightarrow> Inl (TypeError ''hasOwnProperty''))"

text \<open>A value with the state it was computed in, or a fault with the state it left.\<close>

datatype 'a result = Value 'a world | Fault thrown world

fun state_of :: "'a result \<Rightarrow> world" where
  "state_of (Value a w) = w"
| "state_of (Fault e w) = w"

text \<open>
  \<^verbatim>\<open>result[i] = b\<close> on the object \<^verbatim>\<open>result\<close>, which \<^verbatim>\<open>shine.gc.createObject()\<close>
  gives and nothing else refers to; it is kept as the list of its properties so far.  It
  is a plain object: the name \<^verbatim>\<open>__proto__\<close> is its inherited setter.
\<close>

definition put_result :: "string \<Rightarrow> jsval \<Rightarrow> (string \<times> jsval) list \<Rightarrow> (string \<times> jsval) list" where
  "put_result i b result = (if i = ''__proto__'' then result else AList.update i b result)"

text \<open>
  \<^verbatim>\<open>_bindLib\<close>: \<open>bind_entries lib\<close> is the loop over the entries of \<open>lib\<close> (its second
  argument has the entries still to visit), and \<open>bind_entry\<close> is the value stored for one
  entry.  A function is stored as a new function object that calls it with the VM as
  \<^verbatim>\<open>this\<close>.
\<close>

function bind_entries ::
    "(string \<times> lib_entry) list \<Rightarrow> (string \<times> lib_entry) list \<Rightarrow> (string \<times> jsval) list \<Rightarrow> world
       \<Rightarrow> (string \<times> jsval) list result"
  and bind_entry :: "lib_entry \<Rightarrow> world \<Rightarrow> jsval result" where
  "bind_entries lib [] result w = Value result w"
| "bind_entries lib ((i, v) # rest) result w =
     (case lib_guard w lib i of
        Inl e \<Rightarrow> Fault e w
      | Inr False \<Rightarrow> bind_entries lib rest result w
      | Inr True \<Rightarrow>
          (case bind_entry v w of
             Fault e w' \<Rightarrow> Fault e w'
           | Value b w' \<Rightarrow> bind_entries lib rest (put_result i b result) w'))"
| "bind_entry (TableLiteral ps) w = (case new_Table ps w of (r, w') \<Rightarrow> Value (JObj r) w')"
| "bind_entry (NestedLibrary lib) w =
     (case bind_entries lib lib [] w of
        Fault e w' \<Rightarrow> Fault e w'
      | Value result w' \<Rightarrow> (case new_Table result w' of (r, w'') \<Rightarrow> Value (JObj r) w''))"
| "bind_entry (NativeFunction f) w =
     (case alloc (BoundFunction f) (Some (Function_prototype w)) [] w of
        (r, w') \<Rightarrow> Value (JObj r) w')"
| "bind_entry (Scalar v) w = Value v w"
  by pat_completeness auto
termination
  by (relation "measure (\<lambda>a. case a of
        Inl (lib, rest, result, w) \<Rightarrow> size_list (size_prod (\<lambda>k. 0) size) rest
      | Inr (v, w) \<Rightarrow> size v)") auto

definition bindLib :: "(string \<times> lib_entry) list \<Rightarrow> world \<Rightarrow> ref result" where
  "bindLib lib w =
     (case bind_entries lib lib [] w of
        Fault e w' \<Rightarrow> Fault e w'
      | Value result w' \<Rightarrow> (case new_Table result w' of (r, w'') \<Rightarrow> Value r w''))"

subsection \<open>Resetting the globals\<close>

text \<open>The loop of line 53 over the keys of the globals.\<close>

fun register_loaded :: "string list \<Rightarrow> ref \<Rightarrow> world \<Rightarrow> outcome" where
  "register_loaded [] g w = Returns w"
| "register_loaded (i # rest) g w =
     (case own_guard w g i of
        Inl e \<Rightarrow> Throws e w
      | Inr b \<Rightarrow>
          if b \<and> instanceof_Table w (get_prop w g i)
          then (case read_member w (get_prop w g ''package'') ''loaded'' of
                  Inl e \<Rightarrow> Throws e w
                | Inr l \<Rightarrow>
                    (case write_member l i (get_prop w g i) w of
                       Inl e \<Rightarrow> Throws e w
                     | Inr w' \<Rightarrow> register_loaded rest g w'))
          else register_loaded rest g w)"

text \<open>\<^verbatim>\<open>this._env[i]\<close> for a key \<open>i\<close> of the host's environment \<open>ps\<close>.\<close>

definition env_value :: "(string \<times> jsval) list \<Rightarrow> string \<Rightarrow> jsval" where
  "env_value ps i = (case map_of ps i of None \<Rightarrow> JUndefined | Some v \<Rightarrow> v)"

text \<open>
  The loop of line 57 over the keys of the host's environment \<open>ps\<close>: the guard is called
  for every key, and a key that passes is assigned to the globals.
\<close>

fun overlay_env :: "string list \<Rightarrow> (string \<times> jsval) list \<Rightarrow> ref \<Rightarrow> world \<Rightarrow> outcome" where
  "overlay_env [] ps g w = Returns w"
| "overlay_env (i # rest) ps g w =
     (case env_guard w ps i of
        Inl e \<Rightarrow> Throws e w
      | Inr False \<Rightarrow> overlay_env rest ps g w
      | Inr True \<Rightarrow>
          (case set_prop g i (env_value ps i) w of
             Inl e \<Rightarrow> Throws e w
           | Inr w' \<Rightarrow> overlay_env rest ps g w'))"

definition resetGlobals :: "(string \<times> lib_entry) list \<Rightarrow> world \<Rightarrow> outcome" where
  "resetGlobals lib w =
     (case bindLib lib w of
        Fault e w1 \<Rightarrow> Throws e w1
      | Value g w1 \<Rightarrow>
          (let w2 = w1\<lparr>globals := Some g\<rparr> in
           case register_loaded (own_keys w2 g) g w2 of
             Throws e w3 \<Rightarrow> Throws e w3
           | Returns w3 \<Rightarrow>
               (case read_member w3 (get_prop w3 g ''package'') ''loaded'' of
                  Inl e \<Rightarrow> Throws e w3
                | Inr l \<Rightarrow>
                    (case write_member l ''_G'' (JObj g) w3 of
                       Inl e \<Rightarrow> Throws e w3
                     | Inr w4 \<Rightarrow>
                         (case env w4 of
                            None \<Rightarrow> Returns w4
                          | Some ps \<Rightarrow> overlay_env (map fst ps) ps g w4)))))"

subsection \<open>The constructor and the accessors\<close>

text \<open>
  \<^verbatim>\<open>new shine.VM(env)\<close> in a process whose state is \<open>w\<close>: the fields of the new
  instance are set as the constructor sets them (it sets neither \<^verbatim>\<open>_files\<close> nor
  \<^verbatim>\<open>_thread\<close>), the state of the process is taken over.  The host's environment is a
  plain object, given by its own properties; a missing environment is the empty object.
  The library description \<^verbatim>\<open>shine.lib\<close> is not in the source file and is a parameter.
\<close>

definition shine_VM :: "(string \<times> lib_entry) list \<Rightarrow> (string \<times> jsval) list option \<Rightarrow> world \<Rightarrow> outcome" where
  "shine_VM lib e w =
     (case alloc Plain (Some (Object_prototype w)) [] w of
        (fm, w1) \<Rightarrow>
          resetGlobals lib
            (w1\<lparr>fileManager := Some fm, pending_loads := [],
                env := Some (case e of None \<Rightarrow> [] | Some ps \<Rightarrow> ps),
                coroutineStack := Some [], status := RUNNING, resumeStack := [],
                callbackQueue := [], files := None, thread := None, globals := None\<rparr>))"

definition setGlobal :: "string \<Rightarrow> jsval \<Rightarrow> world \<Rightarrow> outcome" where
  "setGlobal name v w =
     (case globals w of
        None \<Rightarrow> Throws (TypeError name) w
      | Some g \<Rightarrow> (case set_prop g name v w of Inl e \<Rightarrow> Throws e w | Inr w' \<Rightarrow> Returns w'))"

definition getGlobal :: "string \<Rightarrow> world \<Rightarrow> thrown + jsval" where
  "getGlobal name w =
     (case globals w of
        None \<Rightarrow> Inl (TypeError name)
      | Some g \<Rightarrow> Inr (get_prop w g name))"

text \<open>\<^verbatim>\<open>this._globals['package'].loaded[name]\<close>.\<close>

definition package_loaded :: "world \<Rightarrow> string \<Rightarrow> thrown + jsval" where
  "package_loaded w name =
     (case getGlobal ''package'' w of
        Inl e \<Rightarrow> Inl e
      | Inr p \<Rightarrow>
          (case read_member w p ''loaded'' of
             Inl e \<Rightarrow> Inl e
           | Inr l \<Rightarrow> read_member w l name))"

text \<open>The host calling \<^verbatim>\<open>setGlobal\<close> for each of the pairs in turn.\<close>

fun setGlobals :: "(string \<times> jsval) list \<Rightarrow> world \<Rightarrow> outcome" where
  "setGlobals [] w = Returns w"
| "setGlobals ((name, v) # rest) w =
     (case setGlobal name v w of
        Throws e w' \<Rightarrow> Throws e w'
      | Returns w' \<Rightarrow> setGlobals rest w')"

subsection \<open>Relations between states\<close>

text \<open>The second state differs from the first in the heap only.\<close>

definition heap_only :: "world \<Rightarrow> world \<Rightarrow> bool" where
  "heap_only w w' \<longleftrightarrow> (\<exists>h n. w' = w\<lparr>heap := h, next_ref := n\<rparr>)"

text \<open>The second state has the objects of the first, unchanged, and maybe new ones.\<close>

definition grows :: "world \<Rightarrow> world \<Rightarrow> bool" where
  "grows w w' \<longleftrightarrow>
     heap_only w w' \<and> next_ref w \<le> next_ref w' \<and> (\<forall>r < next_ref w. heap w' r = heap w r)"

text \<open>The second state has the objects of the first, of the same kinds.\<close>

definition same_objects :: "world \<Rightarrow> world \<Rightarrow> bool" where
  "same_objects w w' \<longleftrightarrow>
     heap_only w w' \<and> next_ref w' = next_ref w \<and> (\<forall>r. kind_of w' r = kind_of w r)"

text \<open>
  The second state has the objects of the first, with the same prototypes; the objects
  other than \<open>r\<close> have the same own properties.
\<close>

definition writes_to :: "ref \<Rightarrow> world \<Rightarrow> world \<Rightarrow> bool" where
  "writes_to r w w' \<longleftrightarrow>
     same_objects w w' \<and> (\<forall>q. proto_of w' q = proto_of w q) \<and>
     (\<forall>q. (heap w' q = None) = (heap w q = None)) \<and>
     (\<forall>q k. q \<noteq> r \<longrightarrow> own_prop w' q k = own_prop w q k)"

subsection \<open>What the claims say of the library, of the engine and of the namespace\<close>

text \<open>An entry of a library description that \<^verbatim>\<open>_bindLib\<close> binds to a new table.\<close>

fun is_table_entry :: "lib_entry \<Rightarrow> bool" where
  "is_table_entry (TableLiteral ps) = True"
| "is_table_entry (NestedLibrary lib) = True"
| "is_table_entry v = False"

text \<open>
  The process has the prototypes as the engine and \<^verbatim>\<open>shine.Table\<close> make them:
  \<^verbatim>\<open>Object.prototype\<close> has the engine's function \<^verbatim>\<open>hasOwnProperty\<close> and no
  prototype, and \<^verbatim>\<open>shine.Table.prototype\<close>, another object, inherits from it and has
  no property of that name.
\<close>

definition standard_engine :: "world \<Rightarrow> bool" where
  "standard_engine w \<longleftrightarrow>
     (\<exists>b. Object_prototype w < next_ref w \<and> Table_prototype w < next_ref w \<and> b < next_ref w \<and>
          Table_prototype w \<noteq> Object_prototype w \<and>
          own_prop w (Object_prototype w) ''hasOwnProperty'' = Some (JObj b) \<and>
          kind_of w b = Some HasOwnProperty \<and>
          heap w (Table_prototype w) \<noteq> None \<and>
          proto_of w (Table_prototype w) = Some (Object_prototype w) \<and>
          own_prop w (Table_prototype w) ''hasOwnProperty'' = None \<and>
          proto_of w (Object_prototype w) = None)"

text \<open>Line 57 assigns the key \<open>i\<close> of the environment \<open>ps\<close>: the guard holds for it.\<close>

definition env_binds :: "world \<Rightarrow> (string \<times> jsval) list \<Rightarrow> string \<Rightarrow> bool" where
  "env_binds w ps i \<longleftrightarrow> i \<in> fst ` set ps \<and> env_guard w ps i = Inr True"

text \<open>
  What the guard of the environment \<open>ps\<close> calls does not depend on the properties of the
  object \<open>g\<close>: it is a property of the environment itself, or else a property that
  \<^verbatim>\<open>Object.prototype\<close>, another object than \<open>g\<close>, has itself.
\<close>

definition env_guard_fixed :: "world \<Rightarrow> (string \<times> jsval) list \<Rightarrow> ref \<Rightarrow> bool" where
  "env_guard_fixed w ps g \<longleftrightarrow>
     map_of ps ''hasOwnProperty'' \<noteq> None \<or>
     (Object_prototype w \<noteq> g \<and> own_prop w (Object_prototype w) ''hasOwnProperty'' \<noteq> None)"

text \<open>
  The globals are the object \<open>g\<close>, its own entry \<^verbatim>\<open>package\<close> is the object \<open>pr\<close>,
  whose own entry \<^verbatim>\<open>loaded\<close> is the object \<open>lr\<close>; the three are different objects.
\<close>

definition namespace_at :: "world \<Rightarrow> ref \<Rightarrow> ref \<Rightarrow> ref \<Rightarrow> bool" where
  "namespace_at w g pr lr \<longleftrightarrow>
     heap w g \<noteq> None \<and> heap w lr \<noteq> None \<and>
     own_prop w g ''package'' = Some (JObj pr) \<and> own_prop w pr ''loaded'' = Some (JObj lr) \<and>
     lr \<noteq> g \<and> lr \<noteq> pr \<and> pr \<noteq> g"

text \<open>
  The globals of the VM are the object \<open>g\<close>, and \<^verbatim>\<open>package.loaded._G\<close>, read through
  the objects \<open>pr\<close> and \<open>lr\<close>, is \<open>g\<close>.
\<close>

definition linked :: "world \<Rightarrow> ref \<Rightarrow> ref \<Rightarrow> ref \<Rightarrow> bool" where
  "linked w g pr lr \<longleftrightarrow>
     globals w = Some g \<and> heap w g \<noteq> None \<and> lr \<noteq> g \<and> pr \<noteq> g \<and>
     own_prop w g ''package'' = Some (JObj pr) \<and> own_prop w pr ''loaded'' = Some (JObj lr) \<and>
     own_prop w lr ''_G'' = Some (JObj g)"
section \<open>Concrete states and collaborators\<close>

text \<open>
  A process as the engine and the library set it up, and in it a VM that has nothing
  loaded.  The heap has the file manager of the VM (0), \<^verbatim>\<open>Object.prototype\<close> (1) with
  its function \<^verbatim>\<open>hasOwnProperty\<close> (2), \<^verbatim>\<open>shine.Table.prototype\<close> (3) and
  \<^verbatim>\<open>Function.prototype\<close> (4).  The functions that are called in the place of
  \<^verbatim>\<open>hasOwnProperty\<close> return \<^verbatim>\<open>false\<close>.
\<close>

definition engine_heap :: "ref \<Rightarrow> obj option" where
  "engine_heap =
     (\<lambda>r. None)
       (0 \<mapsto> \<lparr>kind = Plain, proto = Some 1, props = []\<rparr>,
        1 \<mapsto> \<lparr>kind = Plain, proto = None, props = [(''hasOwnProperty'', JObj 2)]\<rparr>,
        2 \<mapsto> \<lparr>kind = HasOwnProperty, proto = Some 4, props = []\<rparr>,
        3 \<mapsto> \<lparr>kind = Plain, proto = Some 1, props = []\<rparr>,
        4 \<mapsto> \<lparr>kind = Plain, proto = Some 1, props = []\<rparr>)"

definition idle_world :: world where
  "idle_world =
     \<lparr>status = RUNNING, resumeStack = [], callbackQueue = [], coroutineStack = Some [],
      env = Some [], globals = None, files = None, thread = None, fileManager = Some 0,
      pending_loads = [], heap = engine_heap, next_ref = 5, timeouts = [],
      closure_graveyard = [], closure_current = None, coroutine_graveyard = [],
      journal = [], Object_prototype = 1, Table_prototype = 3, Function_prototype = 4,
      guard_answers = (\<lambda>f i. Inr False)\<rparr>"

text \<open>
  The process after the host has made a function, object 5, that answers \<^verbatim>\<open>false\<close>
  to every key.
\<close>

definition host_world :: world where
  "host_world =
     idle_world\<lparr>heap := engine_heap(5 \<mapsto> \<lparr>kind = HostFunction 0, proto = Some 4, props = []\<rparr>),
                next_ref := 6\<rparr>"

text \<open>
  Collaborators that do nothing and return; the normaliser throws what it is given, as
  the one of the repository does.
\<close>

definition quiet_ext :: ext where
  "quiet_ext =
     \<lparr>coroutine_resume = (\<lambda>c w. Returns w), closure_run = (\<lambda>c w. Returns w),
      action_call = (\<lambda>c w. Returns w), unit_pc = (\<lambda>f w. None),
      callback_call = (\<lambda>c w. Returns w), catchExecutionError = (\<lambda>e. Some e),
      trigger = (\<lambda>n p w. Returns w), thread_call = (\<lambda>t w. Returns w),
      coroutine_step = (\<lambda>t w. Returns w), coroutine_status = (\<lambda>t w. DEAD),
      file_dispose = (\<lambda>f w. Returns w), thread_dispose = (\<lambda>t w. Returns w),
      fileManager_dispose = (\<lambda>w. Returns w)\<rparr>"

text \<open>A VM with two suspended units and one queued callback.\<close>

definition busy_world :: world where
  "busy_world = idle_world\<lparr>resumeStack := [Coroutine 3, Action 7], callbackQueue := [9]\<rparr>"




text \<open>
  A plain action that suspends the VM again when it is re-driven: it calls
  \<^verbatim>\<open>suspend()\<close> and is put back on the resume stack.
\<close>

definition resuspending_ext :: ext where
  "resuspending_ext =
     quiet_ext\<lparr>action_call := (\<lambda>c w. Returns ((suspend w)\<lparr>resumeStack := resumeStack w @ [Action c]\<rparr>))\<rparr>"

text \<open>Callbacks that throw.\<close>

definition throwing_ext :: ext where
  "throwing_ext = quiet_ext\<lparr>callback_call := (\<lambda>c w. Throws (new_Error ''callback failed'') w)\<rparr>"

text \<open>
  Units that write a line in the journal of the host when they are run: a number that
  tells the kind of the unit and the unit.  A VM with three suspended units and one
  queued callback.
\<close>

definition unit_tag :: "resumable \<Rightarrow> nat" where
  "unit_tag f = (case f of Coroutine c \<Rightarrow> 3 * c | Closure c \<Rightarrow> 3 * c + 1 | Action c \<Rightarrow> 3 * c + 2)"

definition recording_ext :: ext where
  "recording_ext =
     quiet_ext\<lparr>coroutine_resume := (\<lambda>c w. Returns (w\<lparr>journal := journal w @ [unit_tag (Coroutine c)]\<rparr>)),
       closure_run := (\<lambda>c w. Returns (w\<lparr>journal := journal w @ [unit_tag (Closure c)]\<rparr>)),
       action_call := (\<lambda>c w. Returns (w\<lparr>journal := journal w @ [unit_tag (Action c)]\<rparr>))\<rparr>"

definition stacked_world :: world where
  "stacked_world =
     idle_world\<lparr>resumeStack := [Coroutine 3, Closure 5, Action 7], callbackQueue := [9]\<rparr>"

text \<open>A plain action that throws \<^verbatim>\<open>undefined\<close>.\<close>

definition nullish_ext :: ext where
  "nullish_ext = quiet_ext\<lparr>action_call := (\<lambda>c w. Throws Nullish w)\<rparr>"

text \<open>A closure whose host call throws a native error with a two-line stack text; its
  program counter stands at 12.\<close>

definition faulty_ext :: ext where
  "faulty_ext =
     quiet_ext\<lparr>closure_run := (\<lambda>c w. Throws (Native ''RangeError'' (Some ''too deep'') (Some [CHR ''a'', CHR 0x0A, CHR ''b''])) w),
       unit_pc := (\<lambda>f w. Some 12)\<rparr>"

text \<open>A file whose data has been loaded and a file whose data has not.\<close>

definition ready_file :: shine_file where
  "ready_file = \<lparr>file_id = 1, data = Some 100\<rparr>"

definition empty_file :: shine_file where
  "empty_file = \<lparr>file_id = 2, data = None\<rparr>"

text \<open>
  A VM with two loaded files and a current thread, in a process whose pools hold
  records; and a minimal library, with \<^verbatim>\<open>package.loaded\<close> and two more entries.
\<close>

definition loaded_world :: world where
  "loaded_world =
     idle_world\<lparr>files := Some [ready_file, empty_file],
                 thread := Some (Function ready_file 100 None),
                 closure_graveyard := [11, 12], closure_current := Some 13,
                 coroutine_graveyard := [14]\<rparr>"

definition small_lib :: "(string \<times> lib_entry) list" where
  "small_lib =
     [(''print'', NativeFunction 0),
      (''string'', NestedLibrary [(''len'', NativeFunction 1)]),
      (''package'', NestedLibrary [(''loaded'', NestedLibrary [])])]"

text \<open>The VM of \<^const>\<open>loaded_world\<close> after \<^verbatim>\<open>dispose()\<close>.\<close>

definition disposed_world :: world where
  "disposed_world =
     idle_world\<lparr>coroutineStack := None, env := None, fileManager := None\<rparr>"

section \<open>Properties of suspend and resume\<close>

subsection \<open>Reasoning about the drain loop\<close>

text \<open>
  Partial correctness of \<^const>\<open>drain\<close>: a property that holds when the queue is empty,
  when a callback throws, and that is passed back over one more callback, holds of
  every result.
\<close>

lemma drain_partial_induct [consumes 1, case_names Empty Throws Returns]:
  assumes ret: "drain x tr w = Some r"
    and empty: "\<And>tr w. callbackQueue w = [] \<Longrightarrow> P tr w (tr, Returns w)"
    and throws: "\<And>tr w c cs e w'. callbackQueue w = c # cs \<Longrightarrow>
        callback_call x c (w\<lparr>callbackQueue := cs\<rparr>) = Throws e w' \<Longrightarrow>
        P tr w (tr @ [Invoked c], Throws e w')"
    and returns: "\<And>tr w c cs w' r. callbackQueue w = c # cs \<Longrightarrow>
        callback_call x c (w\<lparr>callbackQueue := cs\<rparr>) = Returns w' \<Longrightarrow>
        drain x (tr @ [Invoked c]) w' = Some r \<Longrightarrow>
        P (tr @ [Invoked c]) w' r \<Longrightarrow> P tr w r"
  shows "P tr w r"
proof -
  let ?Q = "\<lambda>x' tr w r. x' = x \<longrightarrow> drain x tr w = Some r \<longrightarrow> P tr w r"
  have "?Q x tr w r"
  proof (rule drain.raw_induct [where P = ?Q and xa = "((x, tr), w)" and y = r, unfolded prod.case], goal_cases)
    case 2
    show ?case by (rule ret)
  next
    case (1 d x' tr w r)
    show ?case
    proof (intro impI)
      assume eq: "x' = x" and act: "drain x tr w = Some r"
      show "P tr w r"
      proof (cases "callbackQueue w")
        case Nil
        with act have "r = (tr, Returns w)" by (simp add: drain.simps)
        with Nil show ?thesis using empty by simp
      next
        case (Cons c cs)
        show ?thesis
        proof (cases "callback_call x c (w\<lparr>callbackQueue := cs\<rparr>)")
          case (Throws e w')
          with Cons act have "r = (tr @ [Invoked c], Throws e w')" by (simp add: drain.simps)
          with Cons Throws show ?thesis using throws by simp
        next
          case (Returns w')
          with Cons act have a: "drain x (tr @ [Invoked c]) w' = Some r" by (simp add: drain.simps)
          from 1(2) Cons Returns eq have "d x (tr @ [Invoked c]) w' = Some r" by simp
          with 1(1) eq a have "P (tr @ [Invoked c]) w' r" by blast
          with Cons Returns a show ?thesis using returns by blast
        qed
      qed
    qed
  qed
  with ret show ?thesis by blast
qed

lemma drain_status:
  assumes "drain x tr w = Some r" and "keeps_status x"
  shows "status (world_of (snd r)) = status w"
  using assms(1)
proof (induct rule: drain_partial_induct)
  case (Empty tr w)
  then show ?case by simp
next
  case (Throws tr w c cs e w')
  have "status (world_of (callback_call x c (w\<lparr>callbackQueue := cs\<rparr>))) = status (w\<lparr>callbackQueue := cs\<rparr>)"
    using assms(2) unfolding keeps_status_def by blast
  with Throws show ?case by simp
next
  case (Returns tr w c cs w' r)
  have "status (world_of (callback_call x c (w\<lparr>callbackQueue := cs\<rparr>))) = status (w\<lparr>callbackQueue := cs\<rparr>)"
    using assms(2) unfolding keeps_status_def by blast
  with Returns show ?case by simp
qed

lemma redrive_status:
  "keeps_status x \<Longrightarrow> status (world_of (redrive x f w)) = status w"
  by (cases f) (simp_all add: redrive_def keeps_status_def)

text \<open>The state that \<^const>\<open>resume_step\<close> ends in, whether it returns or throws.\<close>

lemma resume_step_world:
  "world_of (snd (resume_step x w)) =
     (if resumeStack w = [] then w\<lparr>status := RESUMING\<rparr>
      else world_of (redrive x (last (resumeStack w))
             (w\<lparr>status := RESUMING, resumeStack := butlast (resumeStack w)\<rparr>)))"
  by (simp add: resume_step_def Let_def split: outcome.split sum.split option.split)

lemma resume_step_status:
  assumes "keeps_status x"
  shows "status (world_of (snd (resume_step x w))) = RESUMING"
  by (simp add: resume_step_world redrive_status [OF assms])

lemma resume_status:
  assumes "resume x w = Some r" and "keeps_status x"
  shows "status (world_of (snd r)) = RESUMING"
proof (cases "resume_step x w")
  case (Pair tr out)
  show ?thesis
  proof (cases out)
    case (Returns w')
    with Pair assms(1) have "drain x tr w' = Some r" by (simp add: resume_def)
    from drain_status [OF this assms(2)] resume_step_status [OF assms(2), of w] Pair Returns
    show ?thesis by simp
  next
    case (Throws e w')
    with Pair assms(1) have "r = (tr, Throws e w')" by (simp add: resume_def)
    with resume_step_status [OF assms(2), of w] Pair Throws show ?thesis by simp
  qed
qed

lemma driven_append: "driven (a @ b) = driven a @ driven b"
  by (induct a rule: driven.induct) simp_all



lemma driven_map_Invoked: "driven (map Invoked cs) = []"
  by (induct cs) simp_all

lemma drain_ends:
  assumes "drain_variant x m"
  shows "\<exists>r. drain x tr w = Some r"
proof (induct "m w" arbitrary: tr w rule: less_induct)
  case less
  show ?case
  proof (cases "callbackQueue w")
    case Nil
    then show ?thesis by (simp add: drain.simps)
  next
    case (Cons c cs)
    show ?thesis
    proof (cases "callback_call x c (w\<lparr>callbackQueue := cs\<rparr>)")
      case (Throws e w')
      with Cons show ?thesis by (simp add: drain.simps)
    next
      case (Returns w')
      from assms Cons Returns have "m w' < m w" unfolding drain_variant_def by blast
      from less [OF this, of "tr @ [Invoked c]"] Cons Returns
      show ?thesis by (simp add: drain.simps)
    qed
  qed
qed

lemma drain_ends_returning:
  assumes "drain_variant x m" and "callbacks_return x"
  shows "\<exists>tr' w'. drain x tr w = Some (tr', Returns w')"
proof (induct "m w" arbitrary: tr w rule: less_induct)
  case less
  show ?case
  proof (cases "callbackQueue w")
    case Nil
    then show ?thesis by (simp add: drain.simps)
  next
    case (Cons c cs)
    from assms(2) obtain w' where Returns: "callback_call x c (w\<lparr>callbackQueue := cs\<rparr>) = Returns w'"
      unfolding callbacks_return_def by blast
    from assms(1) Cons Returns have "m w' < m w" unfolding drain_variant_def by blast
    from less [OF this, of "tr @ [Invoked c]"] Cons Returns
    show ?thesis by (simp add: drain.simps)
  qed
qed

lemma drain_resumeStack:
  assumes "drain x tr w = Some r" and "keeps_resumeStack x"
  shows "resumeStack (world_of (snd r)) = resumeStack w"
  using assms(1)
proof (induct rule: drain_partial_induct)
  case (Empty tr w)
  then show ?case by simp
next
  case (Throws tr w c cs e w')
  have "resumeStack (world_of (callback_call x c (w\<lparr>callbackQueue := cs\<rparr>))) = resumeStack (w\<lparr>callbackQueue := cs\<rparr>)"
    using assms(2) unfolding keeps_resumeStack_def by blast
  with Throws show ?case by simp
next
  case (Returns tr w c cs w' r)
  have "resumeStack (world_of (callback_call x c (w\<lparr>callbackQueue := cs\<rparr>))) = resumeStack (w\<lparr>callbackQueue := cs\<rparr>)"
    using assms(2) unfolding keeps_resumeStack_def by blast
  with Returns show ?case by simp
qed

text \<open>What \<^verbatim>\<open>resume\<close> itself writes is no part of the record of the units.\<close>

lemma units_record_frame:
  assumes "units_record x lg tag"
  shows "lg (w\<lparr>status := s\<rparr>) = lg w" "lg (w\<lparr>status := s, resumeStack := t\<rparr>) = lg w"
    "lg (w\<lparr>callbackQueue := q\<rparr>) = lg w"
proof -
  from assms have f: "lg (w\<lparr>status := s', resumeStack := t', callbackQueue := q'\<rparr>) = lg w" for s' t' q'
    unfolding units_record_def by blast
  from f [where s' = s and t' = "resumeStack w" and q' = "callbackQueue w"]
  show "lg (w\<lparr>status := s\<rparr>) = lg w" by simp
  from f [where s' = s and t' = t and q' = "callbackQueue w"]
  show "lg (w\<lparr>status := s, resumeStack := t\<rparr>) = lg w" by simp
  from f [where s' = "status w" and t' = "resumeStack w" and q' = q]
  show "lg (w\<lparr>callbackQueue := q\<rparr>) = lg w" by simp
qed

lemma drain_log:
  assumes "drain x tr w = Some r" and "units_record x lg tag"
  shows "lg (world_of (snd r)) = lg w"
  using assms(1)
proof (induct rule: drain_partial_induct)
  case (Empty tr w)
  then show ?case by simp
next
  case (Throws tr w c cs e w')
  have "lg (world_of (callback_call x c (w\<lparr>callbackQueue := cs\<rparr>))) = lg (w\<lparr>callbackQueue := cs\<rparr>)"
    using assms(2) unfolding units_record_def by blast
  with Throws units_record_frame(3) [OF assms(2)] show ?case by simp
next
  case (Returns tr w c cs w' r)
  have "lg (world_of (callback_call x c (w\<lparr>callbackQueue := cs\<rparr>))) = lg (w\<lparr>callbackQueue := cs\<rparr>)"
    using assms(2) unfolding units_record_def by blast
  with Returns units_record_frame(3) [OF assms(2)] show ?case by simp
qed

lemma drain_trace:
  assumes "drain x tr w = Some r"
  shows "\<exists>cs. fst r = tr @ map Invoked cs"
  using assms
proof (induct rule: drain_partial_induct)
  case (Empty tr w)
  then show ?case by simp
next
  case (Throws tr w c cs e w')
  have "tr @ [Invoked c] = tr @ map Invoked [c]" by simp
  then show ?case by (metis fst_conv)
next
  case (Returns tr w c cs w' r)
  then obtain cs' where "fst r = (tr @ [Invoked c]) @ map Invoked cs'" by blast
  then have "fst r = tr @ map Invoked (c # cs')" by simp
  then show ?case by blast
qed

lemma drain_driven:
  assumes "drain x tr w = Some r"
  shows "driven (fst r) = driven tr"
  using drain_trace [OF assms] by (auto simp: driven_append driven_map_Invoked)

lemma resume_step_driven:
  "driven (fst (resume_step x w)) = (if resumeStack w = [] then [] else [last (resumeStack w)])"
  by (simp add: resume_step_def Let_def split: outcome.split sum.split option.split)


text \<open>
  The unit that \<^verbatim>\<open>resume\<close> pops is run as lines 215 to 221 have it: a coroutine is
  resumed, a closure is run, anything else is called; and it is run in the state that has
  the status \<^verbatim>\<open>RESUMING\<close> and the stack without the unit.
\<close>

lemma resume_step_runs_unit:
  "resumeStack w \<noteq> [] \<Longrightarrow>
   world_of (snd (resume_step x w)) =
     world_of (case last (resumeStack w) of
        Coroutine c \<Rightarrow> coroutine_resume x c (w\<lparr>status := RESUMING, resumeStack := butlast (resumeStack w)\<rparr>)
      | Closure c \<Rightarrow> closure_run x c (w\<lparr>status := RESUMING, resumeStack := butlast (resumeStack w)\<rparr>)
      | Action c \<Rightarrow> action_call x c (w\<lparr>status := RESUMING, resumeStack := butlast (resumeStack w)\<rparr>))"
  by (simp add: resume_step_world redrive_def)

lemma resume_step_resumeStack:
  assumes "keeps_resumeStack x"
  shows "resumeStack (world_of (snd (resume_step x w))) = butlast (resumeStack w)"
  using assms
  by (simp add: resume_step_world redrive_def keeps_resumeStack_def split: resumable.split)

lemma resume_step_log:
  assumes "units_record x lg tag"
  shows "lg (world_of (snd (resume_step x w))) =
           lg w @ (if resumeStack w = [] then [] else [tag (last (resumeStack w))])"
proof (cases "resumeStack w = []")
  case True
  then show ?thesis by (simp add: resume_step_world units_record_frame(1) [OF assms])
next
  case False
  let ?w2 = "w\<lparr>status := RESUMING, resumeStack := butlast (resumeStack w)\<rparr>"
  have f: "lg ?w2 = lg w" by (rule units_record_frame(2) [OF assms])
  from assms have
    "lg (world_of (coroutine_resume x c ?w2)) = lg ?w2 @ [tag (Coroutine c)]"
    "lg (world_of (closure_run x c ?w2)) = lg ?w2 @ [tag (Closure c)]"
    "lg (world_of (action_call x c ?w2)) = lg ?w2 @ [tag (Action c)]" for c
    unfolding units_record_def by blast+
  with False f show ?thesis
    by (cases "last (resumeStack w)") (simp_all add: resume_step_runs_unit)
qed

text \<open>A call of \<^verbatim>\<open>resume\<close> that comes back has thrown before the drain or has drained.\<close>

lemma resume_cases:
  assumes "resume x w = Some (tr, out)"
  obtains (Fault) e v where "resume_step x w = (tr, Throws e v)" and "out = Throws e v"
  | (Drain) tr0 v where "resume_step x w = (tr0, Returns v)" and "drain x tr0 v = Some (tr, out)"
proof (cases "resume_step x w")
  case (Pair tr0 out0)
  show ?thesis
  proof (cases out0)
    case (Throws e v)
    with Pair assms have "tr = tr0" "out = Throws e v" by (simp_all add: resume_def)
    with Pair Throws show ?thesis using Fault by simp
  next
    case (Returns v)
    with Pair assms have "drain x tr0 v = Some (tr, out)" by (simp add: resume_def)
    with Pair Returns show ?thesis using Drain by simp
  qed
qed

lemma resume_pops_one:
  assumes "keeps_resumeStack x" and "resume x w = Some (tr, out)"
  shows "resumeStack (world_of out) = butlast (resumeStack w) \<and>
         driven tr = (if resumeStack w = [] then [] else [last (resumeStack w)])"
  using assms(2)
proof (cases rule: resume_cases)
  case (Fault e v)
  with resume_step_resumeStack [OF assms(1), of w] resume_step_driven [of x w]
  show ?thesis by simp
next
  case (Drain tr0 v)
  from drain_resumeStack [OF Drain(2) assms(1)] drain_driven [OF Drain(2)]
    resume_step_resumeStack [OF assms(1), of w] resume_step_driven [of x w] Drain(1)
  show ?thesis by simp
qed

lemma resume_log:
  assumes "units_record x lg tag" and "resume x w = Some (tr, out)"
  shows "lg (world_of out) = lg w @ (if resumeStack w = [] then [] else [tag (last (resumeStack w))])"
  using assms(2)
proof (cases rule: resume_cases)
  case (Fault e v)
  with resume_step_log [OF assms(1), of w] show ?thesis by simp
next
  case (Drain tr0 v)
  from drain_log [OF Drain(2) assms(1)] resume_step_log [OF assms(1), of w] Drain(1)
  show ?thesis by simp
qed

lemma resume_ends:
  assumes "drain_variant x m"
  shows "\<exists>tr out. resume x w = Some (tr, out)"
proof (cases "resume_step x w")
  case (Pair tr0 out0)
  show ?thesis
  proof (cases out0)
    case (Throws e v)
    with Pair show ?thesis by (simp add: resume_def)
  next
    case (Returns v)
    from drain_ends [OF assms, of tr0 v] obtain r where "drain x tr0 v = Some r" by blast
    with Pair Returns have "resume x w = Some (fst r, snd r)" by (simp add: resume_def)
    then show ?thesis by blast
  qed
qed

lemma resumes_ends:
  assumes "drain_variant x m"
  shows "\<exists>tr w'. resumes x n w = Some (tr, w')"
proof (induct n arbitrary: w)
  case 0
  show ?case by simp
next
  case (Suc n)
  from resume_ends [OF assms, of w] obtain tr out where r: "resume x w = Some (tr, out)" by blast
  from Suc [of "world_of out"] obtain tr' w' where "resumes x n (world_of out) = Some (tr', w')"
    by blast
  with r show ?case by simp
qed

lemma take_Suc_rev:
  "take (Suc n) (rev s) = (if s = [] then [] else [last s]) @ take n (rev (butlast s))"
  by (cases s rule: rev_cases) simp_all

lemma resumes_Suc:
  assumes "resumes x (Suc n) w = Some (tr, w')"
  obtains tr1 out tr2 where "resume x w = Some (tr1, out)"
    and "resumes x n (world_of out) = Some (tr2, w')" and "tr = tr1 @ tr2"
  using assms by (auto split: option.splits prod.splits)

lemma resumes_lifo:
  assumes "keeps_resumeStack x" and "resumes x n w = Some (tr, w')"
  shows "driven tr = take n (rev (resumeStack w)) \<and>
         resumeStack w' = take (length (resumeStack w) - n) (resumeStack w)"
  using assms(2)
proof (induct n arbitrary: w tr)
  case 0
  then show ?case by simp
next
  case (Suc n)
  from Suc(2) obtain tr1 out tr2 where
    r: "resume x w = Some (tr1, out)" and r': "resumes x n (world_of out) = Some (tr2, w')" and
    t: "tr = tr1 @ tr2" by (rule resumes_Suc)
  from resume_pops_one [OF assms(1) r] have
    s: "resumeStack (world_of out) = butlast (resumeStack w)" and
    d: "driven tr1 = (if resumeStack w = [] then [] else [last (resumeStack w)])" by simp_all
  from Suc(1) [OF r'] have
    d': "driven tr2 = take n (rev (resumeStack (world_of out)))" and
    s': "resumeStack w' = take (length (resumeStack (world_of out)) - n) (resumeStack (world_of out))"
    by simp_all
  from d d' s t have "driven tr = take (Suc n) (rev (resumeStack w))"
    by (simp only: driven_append take_Suc_rev)
  moreover from s' s have "resumeStack w' = take (length (resumeStack w) - Suc n) (resumeStack w)"
    by (simp add: butlast_conv_take min_def)
  ultimately show ?case by simp
qed

lemma resumes_log:
  assumes "keeps_resumeStack x" and "units_record x lg tag" and "resumes x n w = Some (tr, w')"
  shows "lg w' = lg w @ map tag (take n (rev (resumeStack w)))"
  using assms(3)
proof (induct n arbitrary: w tr)
  case 0
  then show ?case by simp
next
  case (Suc n)
  from Suc(2) obtain tr1 out tr2 where
    r: "resume x w = Some (tr1, out)" and r': "resumes x n (world_of out) = Some (tr2, w')"
    by (rule resumes_Suc)
  from resume_pops_one [OF assms(1) r] have
    s: "resumeStack (world_of out) = butlast (resumeStack w)" by simp
  from resume_log [OF assms(2) r] have
    l: "lg (world_of out) = lg w @ (if resumeStack w = [] then [] else [tag (last (resumeStack w))])" .
  from Suc(1) [OF r'] s have "lg w' = lg (world_of out) @ map tag (take n (rev (butlast (resumeStack w))))"
    by simp
  with l show ?case by (simp only: take_Suc_rev) simp
qed



subsection \<open>The claims about suspend and resume\<close>

lemma keeps_status_quiet: "keeps_status quiet_ext"
  by (simp add: keeps_status_def quiet_ext_def)

text \<open>
  C10.  \<^verbatim>\<open>resume()\<close> writes \<^verbatim>\<open>RESUMING\<close> to the status on entry and never writes
  it again: when neither the re-driven unit nor a drained callback writes the status,
  the status is \<^verbatim>\<open>RESUMING\<close> when \<^verbatim>\<open>resume()\<close> is left, by return or by a fault,
  with or without a unit on the resume stack.
\<close>

theorem resume_leaves_status_RESUMING:
  assumes "keeps_status x" and "resume x w = Some (tr, out)"
  shows "status (world_of out) = RESUMING"
  using resume_status [OF assms(2) assms(1)] by simp

theorem resume_leaves_status_RESUMING_witness:
  "keeps_status quiet_ext \<and>
   resume quiet_ext busy_world =
     Some ([Driven (Action 7), Invoked 9],
           Returns (busy_world\<lparr>status := RESUMING, resumeStack := [Coroutine 3], callbackQueue := []\<rparr>)) \<and>
   resume quiet_ext idle_world = Some ([], Returns (idle_world\<lparr>status := RESUMING\<rparr>)) \<and>
   status (world_of (Returns (busy_world\<lparr>status := RESUMING, resumeStack := [Coroutine 3], callbackQueue := []\<rparr>))) = RESUMING \<and>
   status (world_of (Returns (idle_world\<lparr>status := RESUMING\<rparr>))) = RESUMING"
proof -
  have r: "resume quiet_ext busy_world =
     Some ([Driven (Action 7), Invoked 9],
           Returns (busy_world\<lparr>status := RESUMING, resumeStack := [Coroutine 3], callbackQueue := []\<rparr>))"
    by (simp add: resume_def resume_step_def redrive_def drain.simps busy_world_def quiet_ext_def)
  have i: "resume quiet_ext idle_world = Some ([], Returns (idle_world\<lparr>status := RESUMING\<rparr>))"
    by (simp add: resume_def resume_step_def drain.simps idle_world_def)
  from resume_leaves_status_RESUMING [OF keeps_status_quiet r]
    resume_leaves_status_RESUMING [OF keeps_status_quiet i] keeps_status_quiet r i
  show ?thesis by simp
qed




text \<open>
  C2, as the code has it.  On a stack that is not empty, \<^verbatim>\<open>resume()\<close> takes one unit
  off, the most recently pushed, and runs it (a coroutine is resumed, a closure is run,
  anything else is called) in the state that has the stack without it; no other unit is
  run.  On an empty stack it takes nothing off and runs no unit: the call is the drain of
  the callback queue.  When the units and the callbacks leave the resume stack alone, a
  call that comes back, by return or by a fault, has left the stack shorter by that one
  unit, and \<open>n\<close> calls in a row have run the last \<open>n\<close> units of the stack in the
  reverse of the order they were pushed in, as the record that the units keep of their
  runs shows.  The calls do come back when the drain loop has a variant.  On an empty
  stack the call returns when, besides, every callback returns.
\<close>

theorem resume_pops_most_recent_unit:
  "(resumeStack w \<noteq> [] \<longrightarrow>
      driven (fst (resume_step x w)) = [last (resumeStack w)] \<and>
      world_of (snd (resume_step x w)) =
        world_of (case last (resumeStack w) of
           Coroutine c \<Rightarrow> coroutine_resume x c (w\<lparr>status := RESUMING, resumeStack := butlast (resumeStack w)\<rparr>)
         | Closure c \<Rightarrow> closure_run x c (w\<lparr>status := RESUMING, resumeStack := butlast (resumeStack w)\<rparr>)
         | Action c \<Rightarrow> action_call x c (w\<lparr>status := RESUMING, resumeStack := butlast (resumeStack w)\<rparr>))) \<and>
   (resumeStack w = [] \<longrightarrow>
      driven (fst (resume_step x w)) = [] \<and> resume x w = drain x [] (w\<lparr>status := RESUMING\<rparr>)) \<and>
   (keeps_resumeStack x \<and> resume x w = Some (tr1, out) \<longrightarrow>
      resumeStack (world_of out) = butlast (resumeStack w) \<and>
      driven tr1 = (if resumeStack w = [] then [] else [last (resumeStack w)])) \<and>
   (keeps_resumeStack x \<and> resumes x n w = Some (tr, w') \<longrightarrow>
      driven tr = take n (rev (resumeStack w)) \<and>
      resumeStack w' = take (length (resumeStack w) - n) (resumeStack w) \<and>
      (units_record x lg tag \<longrightarrow> lg w' = lg w @ map tag (take n (rev (resumeStack w))))) \<and>
   (drain_variant x m \<longrightarrow> (\<exists>tr w'. resumes x n w = Some (tr, w'))) \<and>
   (resumeStack w = [] \<and> callbacks_return x \<and> drain_variant x m \<longrightarrow>
      (\<exists>tr w'. resume x w = Some (tr, Returns w') \<and> driven tr = [] \<and>
         (keeps_resumeStack x \<longrightarrow> resumeStack w' = [])))"
proof (intro conjI impI)
  assume "resumeStack w \<noteq> []"
  then show "driven (fst (resume_step x w)) = [last (resumeStack w)]"
    by (simp add: resume_step_driven)
next
  assume "resumeStack w \<noteq> []"
  then show "world_of (snd (resume_step x w)) =
        world_of (case last (resumeStack w) of
           Coroutine c \<Rightarrow> coroutine_resume x c (w\<lparr>status := RESUMING, resumeStack := butlast (resumeStack w)\<rparr>)
         | Closure c \<Rightarrow> closure_run x c (w\<lparr>status := RESUMING, resumeStack := butlast (resumeStack w)\<rparr>)
         | Action c \<Rightarrow> action_call x c (w\<lparr>status := RESUMING, resumeStack := butlast (resumeStack w)\<rparr>))"
    by (rule resume_step_runs_unit)
next
  assume "resumeStack w = []"
  then show "driven (fst (resume_step x w)) = []" by (simp add: resume_step_driven)
next
  assume "resumeStack w = []"
  then show "resume x w = drain x [] (w\<lparr>status := RESUMING\<rparr>)"
    by (simp add: resume_def resume_step_def)
next
  assume a: "keeps_resumeStack x \<and> resume x w = Some (tr1, out)"
  from resume_pops_one [of x w tr1 out] a
  show "resumeStack (world_of out) = butlast (resumeStack w)"
    and "driven tr1 = (if resumeStack w = [] then [] else [last (resumeStack w)])" by simp_all
next
  assume a: "keeps_resumeStack x \<and> resumes x n w = Some (tr, w')"
  from resumes_lifo [of x n w tr w'] a
  show "driven tr = take n (rev (resumeStack w))"
    and "resumeStack w' = take (length (resumeStack w) - n) (resumeStack w)" by simp_all
  assume "units_record x lg tag"
  with a show "lg w' = lg w @ map tag (take n (rev (resumeStack w)))"
    using resumes_log [of x lg tag n w tr w'] by simp
next
  assume "drain_variant x m"
  then show "\<exists>tr w'. resumes x n w = Some (tr, w')" by (rule resumes_ends)
next
  assume a: "resumeStack w = [] \<and> callbacks_return x \<and> drain_variant x m"
  then have s: "resume x w = drain x [] (w\<lparr>status := RESUMING\<rparr>)"
    by (simp add: resume_def resume_step_def)
  from a drain_ends_returning [of x m "[]" "w\<lparr>status := RESUMING\<rparr>"]
  obtain tr' v where d: "drain x [] (w\<lparr>status := RESUMING\<rparr>) = Some (tr', Returns v)" by blast
  from drain_driven [OF d] have "driven tr' = []" by simp
  moreover have "keeps_resumeStack x \<longrightarrow> resumeStack v = []"
    using drain_resumeStack [OF d] a by simp
  ultimately show "\<exists>tr w'. resume x w = Some (tr, Returns w') \<and> driven tr = [] \<and>
         (keeps_resumeStack x \<longrightarrow> resumeStack w' = [])"
    using s d by simp
qed

theorem resume_pops_most_recent_unit_witness:
  "keeps_resumeStack recording_ext \<and> units_record recording_ext journal unit_tag \<and>
   drain_variant recording_ext (\<lambda>w. length (callbackQueue w)) \<and> callbacks_return recording_ext \<and>
   resumeStack stacked_world = [Coroutine 3, Closure 5, Action 7] \<and>
   world_of (snd (resume_step recording_ext stacked_world)) =
     stacked_world\<lparr>status := RESUMING, resumeStack := [Coroutine 3, Closure 5], journal := [23]\<rparr> \<and>
   resumes recording_ext 3 stacked_world =
     Some ([Driven (Action 7), Invoked 9, Driven (Closure 5), Driven (Coroutine 3)],
           stacked_world\<lparr>status := RESUMING, resumeStack := [], callbackQueue := [],
                          journal := [23, 16, 9]\<rparr>) \<and>
   journal (stacked_world\<lparr>status := RESUMING, resumeStack := [], callbackQueue := [],
                          journal := [23, 16, 9]\<rparr>) =
     journal stacked_world @ map unit_tag [Action 7, Closure 5, Coroutine 3] \<and>
   resume recording_ext idle_world = Some ([], Returns (idle_world\<lparr>status := RESUMING\<rparr>))"
proof -
  have k: "keeps_resumeStack recording_ext"
    by (simp add: keeps_resumeStack_def recording_ext_def quiet_ext_def)
  have u: "units_record recording_ext journal unit_tag"
    by (simp add: units_record_def recording_ext_def quiet_ext_def)
  have v: "drain_variant recording_ext (\<lambda>w. length (callbackQueue w))"
    by (auto simp: drain_variant_def recording_ext_def quiet_ext_def)
  have c: "callbacks_return recording_ext"
    by (simp add: callbacks_return_def recording_ext_def quiet_ext_def)
  have s: "resumeStack stacked_world = [Coroutine 3, Closure 5, Action 7]"
    by (simp add: stacked_world_def)
  have e: "resumeStack idle_world = []"
    by (simp add: idle_world_def)
  have r1: "resume recording_ext stacked_world =
     Some ([Driven (Action 7), Invoked 9],
           Returns (stacked_world\<lparr>status := RESUMING, resumeStack := [Coroutine 3, Closure 5],
                                   callbackQueue := [], journal := [23]\<rparr>))"
    by (simp add: resume_def resume_step_def redrive_def drain.simps stacked_world_def
        idle_world_def recording_ext_def quiet_ext_def unit_tag_def Let_def)
  have r2: "resume recording_ext (stacked_world\<lparr>status := RESUMING, resumeStack := [Coroutine 3, Closure 5],
                                   callbackQueue := [], journal := [23]\<rparr>) =
     Some ([Driven (Closure 5)],
           Returns (stacked_world\<lparr>status := RESUMING, resumeStack := [Coroutine 3],
                                   callbackQueue := [], journal := [23, 16]\<rparr>))"
    by (simp add: resume_def resume_step_def redrive_def drain.simps stacked_world_def
        idle_world_def recording_ext_def quiet_ext_def unit_tag_def Let_def)
  have r3: "resume recording_ext (stacked_world\<lparr>status := RESUMING, resumeStack := [Coroutine 3],
                                   callbackQueue := [], journal := [23, 16]\<rparr>) =
     Some ([Driven (Coroutine 3)],
           Returns (stacked_world\<lparr>status := RESUMING, resumeStack := [],
                                   callbackQueue := [], journal := [23, 16, 9]\<rparr>))"
    by (simp add: resume_def resume_step_def redrive_def drain.simps stacked_world_def
        idle_world_def recording_ext_def quiet_ext_def unit_tag_def Let_def)
  have rs: "resumes recording_ext (Suc (Suc (Suc 0))) stacked_world =
     Some ([Driven (Action 7), Invoked 9, Driven (Closure 5), Driven (Coroutine 3)],
           stacked_world\<lparr>status := RESUMING, resumeStack := [], callbackQueue := [],
                          journal := [23, 16, 9]\<rparr>)"
    by (simp add: r1 r2 r3)
  have i: "resume recording_ext idle_world = Some ([], Returns (idle_world\<lparr>status := RESUMING\<rparr>))"
    by (simp add: resume_def resume_step_def drain.simps idle_world_def)
  have j: "journal stacked_world = []"
    by (simp add: stacked_world_def idle_world_def)
  from resume_pops_most_recent_unit [where x = recording_ext and w = stacked_world
        and n = "Suc (Suc (Suc 0))" and lg = journal and tag = unit_tag
        and m = "\<lambda>w. length (callbackQueue w)"
        and tr = "[Driven (Action 7), Invoked 9, Driven (Closure 5), Driven (Coroutine 3)]"
        and w' = "stacked_world\<lparr>status := RESUMING, resumeStack := [], callbackQueue := [],
                          journal := [23, 16, 9]\<rparr>"
        and ?tr1.0 = "[Driven (Action 7), Invoked 9]"
        and out = "Returns (stacked_world\<lparr>status := RESUMING, resumeStack := [Coroutine 3, Closure 5],
                                   callbackQueue := [], journal := [23]\<rparr>)"]
    resume_pops_most_recent_unit [where x = recording_ext and w = idle_world and n = 0
        and m = "\<lambda>w. length (callbackQueue w)"]
    k u v c s e r1 rs i j
  show ?thesis
    by (simp add: numeral_3_eq_3 recording_ext_def quiet_ext_def unit_tag_def)
qed

text \<open>
  The claim fails in two places.  Two units have been suspended, a coroutine and then a
  plain action, and \<^verbatim>\<open>resume()\<close> is called twice; the action, when it is re-driven,
  suspends again and puts itself back on the stack: both calls re-drive the action, the
  coroutine is never re-driven, and the stack has its two units still.  And on an empty
  stack, with a queued callback that throws, \<^verbatim>\<open>resume()\<close> does not return: it throws
  what the callback throws.
\<close>

theorem resume_redrives_unit_twice_and_faults_on_empty_stack:
  "resumeStack busy_world = [Coroutine 3, Action 7] \<and>
   resumes resuspending_ext 2 busy_world =
     Some ([Driven (Action 7), Invoked 9, Driven (Action 7)],
           busy_world\<lparr>status := SUSPENDING, callbackQueue := [],
                        timeouts := [SuspendCheck, SuspendCheck]\<rparr>) \<and>
   resumeStack (busy_world\<lparr>status := SUSPENDING, callbackQueue := [],
                             timeouts := [SuspendCheck, SuspendCheck]\<rparr>) =
     [Coroutine 3, Action 7] \<and>
   resumeStack (idle_world\<lparr>callbackQueue := [9]\<rparr>) = [] \<and>
   resume throwing_ext (idle_world\<lparr>callbackQueue := [9]\<rparr>) =
     Some ([Invoked 9],
           Throws (new_Error ''callback failed'') (idle_world\<lparr>status := RESUMING, callbackQueue := []\<rparr>))"
proof -
  have r1: "resume resuspending_ext busy_world =
     Some ([Driven (Action 7), Invoked 9],
           Returns (busy_world\<lparr>status := SUSPENDING, callbackQueue := [], timeouts := [SuspendCheck]\<rparr>))"
    by (simp add: resume_def resume_step_def redrive_def drain.simps busy_world_def idle_world_def
        resuspending_ext_def quiet_ext_def suspend_def Let_def)
  have r2: "resume resuspending_ext (busy_world\<lparr>status := SUSPENDING, callbackQueue := [], timeouts := [SuspendCheck]\<rparr>) =
     Some ([Driven (Action 7)],
           Returns (busy_world\<lparr>status := SUSPENDING, callbackQueue := [],
                                timeouts := [SuspendCheck, SuspendCheck]\<rparr>))"
    by (simp add: resume_def resume_step_def redrive_def drain.simps busy_world_def idle_world_def
        resuspending_ext_def quiet_ext_def suspend_def Let_def)
  have "resumes resuspending_ext (Suc (Suc 0)) busy_world =
     Some ([Driven (Action 7), Invoked 9, Driven (Action 7)],
           busy_world\<lparr>status := SUSPENDING, callbackQueue := [],
                        timeouts := [SuspendCheck, SuspendCheck]\<rparr>)"
    by (simp add: r1 r2)
  moreover have "resume throwing_ext (idle_world\<lparr>callbackQueue := [9]\<rparr>) =
     Some ([Invoked 9],
           Throws (new_Error ''callback failed'') (idle_world\<lparr>status := RESUMING, callbackQueue := []\<rparr>))"
    by (simp add: resume_def resume_step_def drain.simps idle_world_def throwing_ext_def quiet_ext_def)
  ultimately show ?thesis by (simp add: numeral_2_eq_2 busy_world_def idle_world_def)
qed



text \<open>
  A fault of the re-driven unit that is a value other than \<^verbatim>\<open>null\<close> and
  \<^verbatim>\<open>undefined\<close> and not a \<^verbatim>\<open>shine.Error\<close>: \<^verbatim>\<open>resume()\<close> builds a
  \<^verbatim>\<open>shine.Error\<close> whose message is the native message after
  \<^verbatim>\<open>'Error in host call: '\<close>, whose stack is the native stack text, and whose
  \<^verbatim>\<open>luaStack\<close> is the lines of that text followed by the frame of the unit with its
  program counter less one; it hands this error to the normaliser, and throws what the
  normaliser throws.
\<close>

lemma host_call_fault_is_wrapped:
  assumes "resumeStack w \<noteq> []"
    and "redrive x (last (resumeStack w))
           (w\<lparr>status := RESUMING, resumeStack := butlast (resumeStack w)\<rparr>) = Throws (Native n m st) v"
  shows "\<exists>e. e = Structured
            \<lparr>message = ''Error in host call: '' @ (case m of None \<Rightarrow> ''undefined'' | Some t \<Rightarrow> t),
             stack = Some (case st of None \<Rightarrow> [] | Some s \<Rightarrow> s),
             luaStack = Some (map Line (split_lines (case st of None \<Rightarrow> [] | Some s \<Rightarrow> s))
               @ [Frame (last (resumeStack w))
                    (case unit_pc x (last (resumeStack w)) v of None \<Rightarrow> NaN | Some p \<Rightarrow> Number (p - 1))])\<rparr> \<and>
          fst (resume_step x w) = [Driven (last (resumeStack w)), Normalized e] \<and>
          snd (resume_step x w) =
            (case catchExecutionError x e of None \<Rightarrow> Returns v | Some e' \<Rightarrow> Throws e' v)"
  using assms
  by (simp add: resume_step_def host_call_error_def push_frame_def Let_def split: option.split)

text \<open>
  A fault that is already a \<^verbatim>\<open>shine.Error\<close> keeps its message and stack and gets the
  frame of the unit at the end of its \<^verbatim>\<open>luaStack\<close>.
\<close>

lemma structured_fault_gets_frame:
  assumes "resumeStack w \<noteq> []"
    and "redrive x (last (resumeStack w))
           (w\<lparr>status := RESUMING, resumeStack := butlast (resumeStack w)\<rparr>) = Throws (Structured se) v"
  shows "fst (resume_step x w) =
           [Driven (last (resumeStack w)),
            Normalized (Structured (se\<lparr>luaStack := Some ((case luaStack se of None \<Rightarrow> [] | Some fs \<Rightarrow> fs)
               @ [Frame (last (resumeStack w))
                    (case unit_pc x (last (resumeStack w)) v of None \<Rightarrow> NaN | Some p \<Rightarrow> Number (p - 1))])\<rparr>))]"
  using assms
  by (simp add: resume_step_def host_call_error_def push_frame_def Let_def split: option.split)

text \<open>
  C4.  A plain action on the resume stack throws \<^verbatim>\<open>undefined\<close>, a value that is not
  a \<^verbatim>\<open>shine.Error\<close>.  \<^verbatim>\<open>resume()\<close> neither wraps it nor hands anything to the
  normaliser: reading \<^verbatim>\<open>e.stack\<close> in the \<^verbatim>\<open>catch\<close> block raises a
  \<^verbatim>\<open>TypeError\<close>, which leaves \<^verbatim>\<open>resume()\<close> before the callback queue is drained.
\<close>

theorem resume_fault_undefined_not_wrapped:
  "resume nullish_ext busy_world =
     Some ([Driven (Action 7)],
           Throws (TypeError ''stack'')
             (busy_world\<lparr>status := RESUMING, resumeStack := [Coroutine 3]\<rparr>))"
  by (simp add: resume_def resume_step_def redrive_def host_call_error_def busy_world_def
      nullish_ext_def quiet_ext_def)

lemma host_call_fault_example:
  "resume faulty_ext (idle_world\<lparr>resumeStack := [Closure 5]\<rparr>) =
     Some ([Driven (Closure 5),
            Normalized (Structured \<lparr>message = ''Error in host call: too deep'',
              stack = Some [CHR ''a'', CHR 0x0A, CHR ''b''],
              luaStack = Some [Line ''a'', Line ''b'', Frame (Closure 5) (Number 11)]\<rparr>)],
           Throws (Structured \<lparr>message = ''Error in host call: too deep'',
              stack = Some [CHR ''a'', CHR 0x0A, CHR ''b''],
              luaStack = Some [Line ''a'', Line ''b'', Frame (Closure 5) (Number 11)]\<rparr>)
             (idle_world\<lparr>status := RESUMING, resumeStack := []\<rparr>))"
  by (simp add: resume_def resume_step_def redrive_def host_call_error_def push_frame_def
      idle_world_def faulty_ext_def quiet_ext_def Let_def)

section \<open>Properties of execute and load\<close>

lemma constructed_append: "constructed (a @ b) = constructed a @ constructed b"
  by (induct a rule: constructed.induct) simp_all

lemma run_thread_constructed: "constructed (fst (run_thread x coCfg t w)) = []"
  by (simp add: run_thread_def co_resume_def constructed_append
      split: option.split outcome.split prod.split)

lemma execute_file_constructed:
  "constructed (fst (execute_file x coCfg f d w)) = [Function f d (globals w)]"
  using run_thread_constructed [of x coCfg "Function f d (globals w)"]
  by (simp add: execute_file_def Let_def split: outcome.split prod.split) (metis fst_conv)

lemma execute_files_append:
  "execute_files x coCfg (a @ b) w =
     (case execute_files x coCfg a w of
        (tr, Throws e w') \<Rightarrow> (tr, Throws e w')
      | (tr, Returns w') \<Rightarrow> (case execute_files x coCfg b w' of (tr', out) \<Rightarrow> (tr @ tr', out)))"
  by (induct a arbitrary: w) (simp_all split: option.split prod.split outcome.split)

lemma execute_files_constructed:
  "execute_files x coCfg fs w = (tr, Returns w') \<Longrightarrow> map thread_file (constructed tr) = fs"
proof (induct fs arbitrary: w tr)
  case Nil
  then show ?case by simp
next
  case (Cons f fs)
  from Cons(2) obtain d where d: "data f = Some d" by (cases "data f") simp_all
  obtain tr1 out1 where e1: "execute_file x coCfg f d w = (tr1, out1)" by (cases "execute_file x coCfg f d w")
  from Cons(2) d e1 obtain w1 where o1: "out1 = Returns w1" by (cases out1) simp_all
  obtain tr2 out2 where e2: "execute_files x coCfg fs w1 = (tr2, out2)" by (cases "execute_files x coCfg fs w1")
  from Cons(2) d e1 o1 e2 have t: "tr = tr1 @ tr2" and "out2 = Returns w'" by simp_all
  with e2 Cons(1) have "map thread_file (constructed tr2) = fs" by blast
  moreover have "constructed tr1 = [Function f d (globals w)]"
    using execute_file_constructed [of x coCfg f d w] e1 by simp
  ultimately show ?case using t by (simp add: constructed_append)
qed

text \<open>
  What \<^verbatim>\<open>execute\<close> does once \<^verbatim>\<open>_files\<close> is an array, which nothing in the source
  file makes it: with an empty array it throws \<^verbatim>\<open>'No files loaded.'\<close>.  The data
  of a target is looked at when the loop comes to it: a file given as the argument that
  has no data makes \<^verbatim>\<open>execute\<close> throw with no thread constructed; a later file
  without data makes it throw after the threads of the files before it have been
  constructed and run.
\<close>

lemma execute_targets_checked_in_turn:
  "(files w = Some [] \<longrightarrow>
      execute x coCfg None w = ([], Throws (new_Error ''No files loaded.'') w)) \<and>
   (data f = None \<longrightarrow>
      execute x coCfg (Some f) w =
        ([], Throws (new_Error ''Tried to execute file before data loaded.'') w)) \<and>
   (files w = Some (pre @ f # rest) \<and> data f = None \<and>
    execute_files x coCfg pre w = (tr, Returns w') \<longrightarrow>
      execute x coCfg None w =
        (tr, Throws (new_Error ''Tried to execute file before data loaded.'') w') \<and>
      map thread_file (constructed tr) = pre)"
proof (intro conjI impI)
  assume "files w = Some []"
  then show "execute x coCfg None w = ([], Throws (new_Error ''No files loaded.'') w)"
    by (simp add: execute_def)
next
  assume "data f = None"
  then show "execute x coCfg (Some f) w =
      ([], Throws (new_Error ''Tried to execute file before data loaded.'') w)"
    by (simp add: execute_def)
next
  assume a: "files w = Some (pre @ f # rest) \<and> data f = None \<and>
    execute_files x coCfg pre w = (tr, Returns w')"
  then show "execute x coCfg None w =
      (tr, Throws (new_Error ''Tried to execute file before data loaded.'') w')"
    by (simp add: execute_def execute_files_append)
  from a show "map thread_file (constructed tr) = pre"
    using execute_files_constructed by blast
qed

text \<open>
  Where \<^verbatim>\<open>_files\<close> is undefined, \<^verbatim>\<open>execute()\<close> without a file is a fault of the
  engine; \<^verbatim>\<open>load\<close> leaves \<^verbatim>\<open>_files\<close> as it is.
\<close>

lemma execute_without_files:
  "files w = None \<Longrightarrow> execute x coCfg None w = ([], Throws (TypeError ''length'') w)"
  by (simp add: execute_def)

lemma load_files: "files (world_of (load url exec coCfg w)) = files w"
  by (simp add: load_def split: option.split)

text \<open>
  C8, as the code has it.  When the file manager reports no error, the callback of
  \<^verbatim>\<open>load()\<close> first emits \<^verbatim>\<open>file-loaded\<close> with the file.  When that returns, the
  callback goes on to \<^verbatim>\<open>execute(coConfig, file)\<close> if the \<^verbatim>\<open>execute\<close> argument is
  truthy or \<^verbatim>\<open>undefined\<close>, and returns without executing if it is any other falsy
  value: \<^verbatim>\<open>false\<close>, \<^verbatim>\<open>null\<close>, \<^verbatim>\<open>0\<close> or the empty string.
\<close>

theorem load_callback_emits_then_executes:
  "(\<exists>tr. fst (load_callback x url exec coCfg None f w) = Triggered ''file-loaded'' (FileLoaded f) # tr) \<and>
   (trigger x ''file-loaded'' (FileLoaded f) w = Returns w' \<and> (truthy exec \<or> exec = JUndefined) \<longrightarrow>
      load_callback x url exec coCfg None f w =
        (Triggered ''file-loaded'' (FileLoaded f) # fst (execute x coCfg (Some f) w'),
         snd (execute x coCfg (Some f) w'))) \<and>
   (trigger x ''file-loaded'' (FileLoaded f) w = Returns w' \<and>
    exec \<in> {JBool False, JNull, JNum 0, JStr []} \<longrightarrow>
      load_callback x url exec coCfg None f w =
        ([Triggered ''file-loaded'' (FileLoaded f)], Returns w'))"
proof (intro conjI impI)
  show "\<exists>tr. fst (load_callback x url exec coCfg None f w) = Triggered ''file-loaded'' (FileLoaded f) # tr"
    by (simp add: load_callback_def split: outcome.split prod.split)
next
  assume "trigger x ''file-loaded'' (FileLoaded f) w = Returns w' \<and> (truthy exec \<or> exec = JUndefined)"
  then show "load_callback x url exec coCfg None f w =
        (Triggered ''file-loaded'' (FileLoaded f) # fst (execute x coCfg (Some f) w'),
         snd (execute x coCfg (Some f) w'))"
    by (auto simp: load_callback_def split: prod.split)
next
  assume "trigger x ''file-loaded'' (FileLoaded f) w = Returns w' \<and>
    exec \<in> {JBool False, JNull, JNum 0, JStr []}"
  then show "load_callback x url exec coCfg None f w =
        ([Triggered ''file-loaded'' (FileLoaded f)], Returns w')"
    by (auto simp: load_callback_def)
qed

theorem load_callback_emits_then_executes_witness:
  "trigger quiet_ext ''file-loaded'' (FileLoaded ready_file) idle_world = Returns idle_world \<and>
   truthy (JBool True) \<and> JNum 0 \<in> {JBool False, JNull, JNum 0, JStr []} \<and>
   load_callback quiet_ext ''a.json'' (JBool True) None None ready_file idle_world =
     ([Triggered ''file-loaded'' (FileLoaded ready_file),
       Constructed (Function ready_file 100 None),
       Triggered ''executing'' (Executing (Function ready_file 100 None) None),
       Called (Function ready_file 100 None)],
      Returns (idle_world\<lparr>thread := Some (Function ready_file 100 None)\<rparr>)) \<and>
   load_callback quiet_ext ''a.json'' (JNum 0) None None ready_file idle_world =
     ([Triggered ''file-loaded'' (FileLoaded ready_file)], Returns idle_world)"
proof -
  have t: "trigger quiet_ext ''file-loaded'' (FileLoaded ready_file) idle_world = Returns idle_world"
    by (simp add: quiet_ext_def)
  have e: "execute quiet_ext None (Some ready_file) idle_world =
     ([Constructed (Function ready_file 100 None),
       Triggered ''executing'' (Executing (Function ready_file 100 None) None),
       Called (Function ready_file 100 None)],
      Returns (idle_world\<lparr>thread := Some (Function ready_file 100 None)\<rparr>))"
    by (simp add: execute_def execute_file_def run_thread_def quiet_ext_def ready_file_def
        idle_world_def Let_def)
  from load_callback_emits_then_executes [where x = quiet_ext and f = ready_file and w = idle_world
      and w' = idle_world and exec = "JBool True" and url = "''a.json''" and coCfg = None]
    load_callback_emits_then_executes [where x = quiet_ext and f = ready_file and w = idle_world
      and w' = idle_world and exec = "JNum 0" and url = "''a.json''" and coCfg = None]
    t e
  show ?thesis by simp
qed

text \<open>
  The claim fails where it has execution skipped only for \<^verbatim>\<open>false\<close>: with
  \<^verbatim>\<open>null\<close> as the \<^verbatim>\<open>execute\<close> argument the callback emits \<^verbatim>\<open>file-loaded\<close> and
  returns; the call of \<^verbatim>\<open>execute\<close> on the file, which would construct a thread, is
  not made.
\<close>

theorem load_callback_skips_on_null:
  "JNull \<noteq> JBool False \<and>
   load_callback quiet_ext ''a.json'' JNull None None ready_file idle_world =
     ([Triggered ''file-loaded'' (FileLoaded ready_file)], Returns idle_world) \<and>
   constructed (fst (execute quiet_ext None (Some ready_file) idle_world)) =
     [Function ready_file 100 None] \<and>
   constructed (fst (load_callback quiet_ext ''a.json'' JNull None None ready_file idle_world)) = []"
  by (simp add: load_callback_def execute_def execute_file_def run_thread_def quiet_ext_def
      ready_file_def idle_world_def Let_def)

text \<open>A reported error is thrown as a \<^verbatim>\<open>URIError\<close> before anything is emitted.\<close>

lemma load_callback_error:
  "load_callback x url exec coCfg (Some er) f w =
     ([], Throws (new_URIError (''Failed to load file: '' @ url @ '' ('' @ er @ '')'')) w)"
  by (simp add: load_callback_def)

section \<open>Properties of the global namespace\<close>

subsection \<open>States that differ in the heap only\<close>

lemma heap_only_refl: "heap_only w w"
proof -
  have "w = w\<lparr>heap := heap w, next_ref := next_ref w\<rparr>" by simp
  then show ?thesis unfolding heap_only_def by blast
qed

lemma heap_only_trans: "heap_only a b \<Longrightarrow> heap_only b c \<Longrightarrow> heap_only a c"
proof -
  assume "heap_only a b" and "heap_only b c"
  then obtain h n h' n' where "b = a\<lparr>heap := h, next_ref := n\<rparr>" and "c = b\<lparr>heap := h', next_ref := n'\<rparr>"
    unfolding heap_only_def by blast
  then have "c = a\<lparr>heap := h', next_ref := n'\<rparr>" by simp
  then show ?thesis unfolding heap_only_def by blast
qed

lemma heap_only_heap_update: "heap_only w (w\<lparr>heap := h\<rparr>)"
proof -
  have "w\<lparr>heap := h\<rparr> = w\<lparr>heap := h, next_ref := next_ref w\<rparr>" by simp
  then show ?thesis unfolding heap_only_def by blast
qed

lemma heap_only_fields:
  assumes "heap_only w w'"
  shows "status w' = status w" "resumeStack w' = resumeStack w" "callbackQueue w' = callbackQueue w"
    "coroutineStack w' = coroutineStack w" "env w' = env w" "globals w' = globals w"
    "files w' = files w" "thread w' = thread w" "fileManager w' = fileManager w"
    "pending_loads w' = pending_loads w" "timeouts w' = timeouts w"
    "closure_graveyard w' = closure_graveyard w" "closure_current w' = closure_current w"
    "coroutine_graveyard w' = coroutine_graveyard w"
  using assms unfolding heap_only_def by auto

lemma heap_only_engine:
  assumes "heap_only w w'"
  shows "Object_prototype w' = Object_prototype w" "Table_prototype w' = Table_prototype w"
    "Function_prototype w' = Function_prototype w" "guard_answers w' = guard_answers w"
  using assms unfolding heap_only_def by auto

lemma heap_only_globals: "heap_only w w' \<Longrightarrow> heap_only (w\<lparr>globals := g\<rparr>) (w'\<lparr>globals := g\<rparr>)"
proof -
  assume "heap_only w w'"
  then obtain h n where "w' = w\<lparr>heap := h, next_ref := n\<rparr>" unfolding heap_only_def by blast
  then have "w'\<lparr>globals := g\<rparr> = (w\<lparr>globals := g\<rparr>)\<lparr>heap := h, next_ref := n\<rparr>" by simp
  then show ?thesis unfolding heap_only_def by blast
qed

lemma grows_refl: "grows w w"
  by (simp add: grows_def heap_only_refl)

lemma grows_trans: "grows a b \<Longrightarrow> grows b c \<Longrightarrow> grows a c"
  unfolding grows_def by (auto intro: heap_only_trans)

lemma grows_heap_only: "grows w w' \<Longrightarrow> heap_only w w'"
  by (simp add: grows_def)

lemma grows_heap: "grows w w' \<Longrightarrow> r < next_ref w \<Longrightarrow> heap w' r = heap w r"
  by (simp add: grows_def)

lemma grows_next_ref: "grows w w' \<Longrightarrow> next_ref w \<le> next_ref w'"
  by (simp add: grows_def)

lemma alloc_grows: "alloc k p ps w = (r, w') \<Longrightarrow> grows w w'"
  unfolding grows_def heap_only_def alloc_def by auto

lemma alloc_result:
  "alloc k p ps w = (r, w') \<Longrightarrow>
     r = next_ref w \<and> next_ref w' = Suc r \<and> heap w' r = Some \<lparr>kind = k, proto = p, props = ps\<rparr>"
  unfolding alloc_def by auto

lemma same_objects_refl: "same_objects w w"
  by (simp add: same_objects_def heap_only_refl)

lemma same_objects_trans: "same_objects a b \<Longrightarrow> same_objects b c \<Longrightarrow> same_objects a c"
  unfolding same_objects_def by (auto intro: heap_only_trans)

lemma same_objects_heap_only: "same_objects w w' \<Longrightarrow> heap_only w w'"
  by (simp add: same_objects_def)

lemma same_objects_heap_None: "same_objects w w' \<Longrightarrow> (heap w' r = None) = (heap w r = None)"
proof -
  assume "same_objects w w'"
  then have "kind_of w' r = kind_of w r" unfolding same_objects_def by blast
  then show ?thesis by (cases "heap w r"; cases "heap w' r") (simp_all add: kind_of_def)
qed

lemma set_own_same_objects: "same_objects w (set_own r k v w)"
  unfolding same_objects_def set_own_def kind_of_def
  by (auto simp: heap_only_refl heap_only_heap_update split: option.split)

lemma set_prototype_same_objects: "set_prototype r v w = Inr w' \<Longrightarrow> same_objects w w'"
  unfolding same_objects_def set_prototype_def kind_of_def
  by (auto simp: heap_only_refl heap_only_heap_update split: option.splits jsval.splits if_splits)

lemma set_prop_same_objects: "set_prop r k v w = Inr w' \<Longrightarrow> same_objects w w'"
  by (auto simp: set_prop_def set_own_same_objects set_prototype_same_objects split: if_splits)

lemma write_member_same_objects: "write_member l k u w = Inr w' \<Longrightarrow> same_objects w w'"
  by (auto simp: write_member_def same_objects_refl split: jsval.splits
      dest: set_prop_same_objects)

lemma bind_grows:
  "grows w (state_of (bind_entries lib rest result w))"
  "grows w (state_of (bind_entry v w))"
proof (induct lib rest result w and v w rule: bind_entries_bind_entry.induct)
  case (1 lib result w)
  show ?case by (simp add: grows_refl)
next
  case (2 lib i v rest result w)
  show ?case
  proof (cases "lib_guard w lib i")
    case (Inl e)
    then show ?thesis by (simp add: grows_refl)
  next
    case (Inr b)
    show ?thesis
    proof (cases b)
      case False
      with 2(3) [OF Inr] have "grows w (state_of (bind_entries lib rest result w))" by simp
      with Inr False show ?thesis by simp
    next
      case True
      with 2(1) [OF Inr] have q: "grows w (state_of (bind_entry v w))" by simp
      show ?thesis
      proof (cases "bind_entry v w")
        case (Fault e w')
        with q Inr True show ?thesis by simp
      next
        case (Value b' w')
        with q have "grows w w'" by simp
        moreover from 2(2) [OF Inr _ Value] True
        have "grows w' (state_of (bind_entries lib rest (put_result i b' result) w'))" by simp
        ultimately show ?thesis using Inr True Value by (simp add: grows_trans)
      qed
    qed
  qed
next
  case (3 ps w)
  obtain r w' where a: "alloc Plain (Some (Table_prototype w)) ps w = (r, w')"
    by (cases "alloc Plain (Some (Table_prototype w)) ps w")
  with alloc_grows [OF a] show ?case by (simp add: new_Table_def)
next
  case (4 lib w)
  show ?case
  proof (cases "bind_entries lib lib [] w")
    case (Fault e w')
    with 4 show ?thesis by simp
  next
    case (Value res w')
    obtain r w'' where a: "alloc Plain (Some (Table_prototype w')) res w' = (r, w'')"
      by (cases "alloc Plain (Some (Table_prototype w')) res w'")
    from 4 Value have "grows w w'" by simp
    with alloc_grows [OF a] a Value show ?thesis by (simp add: new_Table_def grows_trans)
  qed
next
  case (5 f w)
  obtain r w' where a: "alloc (BoundFunction f) (Some (Function_prototype w)) [] w = (r, w')"
    by (cases "alloc (BoundFunction f) (Some (Function_prototype w)) [] w")
  with alloc_grows [OF a] show ?case by simp
next
  case (6 v w)
  show ?case by (simp add: grows_refl)
qed

lemma bindLib_grows: "grows w (state_of (bindLib lib w))"
proof (cases "bind_entries lib lib [] w")
  case (Fault e w')
  with bind_grows(1) [of w lib lib "[]"] show ?thesis by (simp add: bindLib_def)
next
  case (Value res w1)
  obtain r w'' where a: "alloc Plain (Some (Table_prototype w1)) res w1 = (r, w'')"
    by (cases "alloc Plain (Some (Table_prototype w1)) res w1")
  from bind_grows(1) [of w lib lib "[]"] Value have "grows w w1" by simp
  with alloc_grows [OF a] a Value show ?thesis by (simp add: bindLib_def new_Table_def grows_trans)
qed

lemma register_loaded_same_objects:
  "same_objects w (world_of (register_loaded ks g w))"
proof (induct ks arbitrary: w)
  case Nil
  show ?case by (simp add: same_objects_refl)
next
  case (Cons i ks)
  show ?case
  proof (cases "own_guard w g i")
    case (Inl e)
    then show ?thesis by (simp add: same_objects_refl)
  next
    case (Inr b)
    show ?thesis
    proof (cases "b \<and> instanceof_Table w (get_prop w g i)")
      case False
      with Inr have "register_loaded (i # ks) g w = register_loaded ks g w" by auto
      with Cons show ?thesis by simp
    next
      case True
      show ?thesis
      proof (cases "read_member w (get_prop w g ''package'') ''loaded''")
        case (Inl e)
        with True \<open>own_guard w g i = Inr b\<close> show ?thesis by (simp add: same_objects_refl)
      next
        case l: (Inr l)
        show ?thesis
        proof (cases "write_member l i (get_prop w g i) w")
          case (Inl e)
          with True l \<open>own_guard w g i = Inr b\<close> show ?thesis by (simp add: same_objects_refl)
        next
          case (Inr w')
          from write_member_same_objects [OF this] Cons [of w']
          have "same_objects w (world_of (register_loaded ks g w'))"
            by (rule same_objects_trans)
          with True l Inr \<open>own_guard w g i = Inr b\<close> show ?thesis by simp
        qed
      qed
    qed
  qed
qed

lemma overlay_env_same_objects: "same_objects w (world_of (overlay_env ks ps g w))"
proof (induct ks arbitrary: w)
  case Nil
  show ?case by (simp add: same_objects_refl)
next
  case (Cons i ks)
  show ?case
  proof (cases "env_guard w ps i")
    case (Inl e)
    then show ?thesis by (simp add: same_objects_refl)
  next
    case (Inr b)
    show ?thesis
    proof (cases b)
      case False
      with Inr Cons show ?thesis by simp
    next
      case True
      show ?thesis
      proof (cases "set_prop g i (env_value ps i) w")
        case (Inl e)
        with Inr True show ?thesis by (simp add: same_objects_refl)
      next
        case w': (Inr w')
        from set_prop_same_objects [OF this] Cons [of w']
        have "same_objects w (world_of (overlay_env ks ps g w'))" by (rule same_objects_trans)
        with Inr True w' show ?thesis by simp
      qed
    qed
  qed
qed

text \<open>\<^verbatim>\<open>_resetGlobals\<close> changes the heap and \<^verbatim>\<open>_globals\<close> and nothing else.\<close>

lemma resetGlobals_frame:
  "\<exists>gl. heap_only (w\<lparr>globals := gl\<rparr>) (world_of (resetGlobals lib w))"
proof (cases "bindLib lib w")
  case (Fault e w1)
  with bindLib_grows [of w lib] have "heap_only w w1" by (simp add: grows_def)
  then have "heap_only (w\<lparr>globals := globals w\<rparr>) w1" by simp
  then have "\<exists>gl. heap_only (w\<lparr>globals := gl\<rparr>) w1" by (rule exI)
  with Fault show ?thesis by (simp add: resetGlobals_def)
next
  case (Value g w1)
  let ?w2 = "w1\<lparr>globals := Some g\<rparr>"
  from bindLib_grows [of w lib] Value have "heap_only w w1" by (simp add: grows_def)
  then have h2: "heap_only (w\<lparr>globals := Some g\<rparr>) ?w2" by (rule heap_only_globals)
  let ?w3 = "world_of (register_loaded (own_keys ?w2 g) g ?w2)"
  have h3: "heap_only ?w2 ?w3"
    using register_loaded_same_objects by (rule same_objects_heap_only)
  have "heap_only ?w3 (world_of (resetGlobals lib w))"
  proof (cases "register_loaded (own_keys ?w2 g) g ?w2")
    case (Throws e w3)
    with Value show ?thesis by (simp add: resetGlobals_def heap_only_refl)
  next
    case (Returns w3)
    show ?thesis
    proof (cases "read_member w3 (get_prop w3 g ''package'') ''loaded''")
      case (Inl e)
      with Value Returns show ?thesis by (simp add: resetGlobals_def heap_only_refl)
    next
      case l: (Inr l)
      show ?thesis
      proof (cases "write_member l ''_G'' (JObj g) w3")
        case (Inl e)
        with Value Returns l show ?thesis by (simp add: resetGlobals_def heap_only_refl)
      next
        case (Inr w4)
        from write_member_same_objects [OF this] have s4: "same_objects w3 w4" .
        show ?thesis
        proof (cases "env w4")
          case None
          with Value Returns l Inr s4 show ?thesis
            by (simp add: resetGlobals_def same_objects_heap_only)
        next
          case (Some ps)
          from s4 overlay_env_same_objects [of w4 "map fst ps" ps g]
          have "same_objects w3 (world_of (overlay_env (map fst ps) ps g w4))"
            by (rule same_objects_trans)
          with Value Returns l Inr Some show ?thesis
            by (simp add: resetGlobals_def same_objects_heap_only)
        qed
      qed
    qed
  qed
  with h2 h3 show ?thesis by (blast intro: heap_only_trans)
qed

lemma shine_VM_frame:
  "\<exists>gl h n. world_of (shine_VM lib e w) =
     w\<lparr>fileManager := Some (next_ref w), pending_loads := [],
       env := Some (case e of None \<Rightarrow> [] | Some ps \<Rightarrow> ps),
       coroutineStack := Some [], status := RUNNING, resumeStack := [],
       callbackQueue := [], files := None, thread := None, globals := gl,
       heap := h, next_ref := n\<rparr>"
proof -
  let ?w0 = "snd (alloc Plain (Some (Object_prototype w)) [] w)"
  let ?w1 = "?w0\<lparr>fileManager := Some (next_ref w), pending_loads := [],
                env := Some (case e of None \<Rightarrow> [] | Some ps \<Rightarrow> ps),
                coroutineStack := Some [], status := RUNNING, resumeStack := [],
                callbackQueue := [], files := None, thread := None, globals := None\<rparr>"
  have v: "shine_VM lib e w = resetGlobals lib ?w1"
    by (simp add: shine_VM_def alloc_def)
  from resetGlobals_frame [of ?w1 lib] obtain gl h n where
    "world_of (resetGlobals lib ?w1) = (?w1\<lparr>globals := gl\<rparr>)\<lparr>heap := h, next_ref := n\<rparr>"
    unfolding heap_only_def by blast
  with v have "world_of (shine_VM lib e w) =
     w\<lparr>fileManager := Some (next_ref w), pending_loads := [],
       env := Some (case e of None \<Rightarrow> [] | Some ps \<Rightarrow> ps),
       coroutineStack := Some [], status := RUNNING, resumeStack := [],
       callbackQueue := [], files := None, thread := None, globals := gl,
       heap := h, next_ref := n\<rparr>"
    by (simp add: alloc_def)
  then show ?thesis by blast
qed

lemma shine_VM_pools:
  "closure_graveyard (world_of (shine_VM lib e w)) = closure_graveyard w \<and>
   closure_current (world_of (shine_VM lib e w)) = closure_current w \<and>
   coroutine_graveyard (world_of (shine_VM lib e w)) = coroutine_graveyard w"
proof -
  from shine_VM_frame [of lib e w] obtain gl h n where
    "world_of (shine_VM lib e w) =
     w\<lparr>fileManager := Some (next_ref w), pending_loads := [],
       env := Some (case e of None \<Rightarrow> [] | Some ps \<Rightarrow> ps),
       coroutineStack := Some [], status := RUNNING, resumeStack := [],
       callbackQueue := [], files := None, thread := None, globals := gl,
       heap := h, next_ref := n\<rparr>" by blast
  then show ?thesis by simp
qed

text \<open>The constructor leaves \<^verbatim>\<open>_files\<close> undefined.\<close>

lemma shine_VM_files: "files (world_of (shine_VM lib e w)) = None"
proof -
  from shine_VM_frame [of lib e w] obtain gl h n where
    "world_of (shine_VM lib e w) =
     w\<lparr>fileManager := Some (next_ref w), pending_loads := [],
       env := Some (case e of None \<Rightarrow> [] | Some ps \<Rightarrow> ps),
       coroutineStack := Some [], status := RUNNING, resumeStack := [],
       callbackQueue := [], files := None, thread := None, globals := gl,
       heap := h, next_ref := n\<rparr>" by blast
  then show ?thesis by simp
qed

subsection \<open>Reading and writing properties\<close>

lemma get_prop_own: "own_prop w r k = Some v \<Longrightarrow> get_prop w r k = v"
  by (simp add: get_prop_def)

lemma own_prop_set_own:
  "own_prop (set_own r k v w) r' k' =
     (if r' = r \<and> k' = k \<and> heap w r \<noteq> None then Some v else own_prop w r' k')"
  by (auto simp: own_prop_def set_own_def update_conv' split: option.split)

lemma proto_of_set_own: "proto_of (set_own r k v w) q = proto_of w q"
  by (auto simp: proto_of_def set_own_def split: option.split)

lemma heap_None_set_own: "(heap (set_own r k v w) q = None) = (heap w q = None)"
  by (auto simp: set_own_def split: option.split)

lemma writes_to_refl: "writes_to r w w"
  by (simp add: writes_to_def same_objects_refl)

lemma writes_to_trans: "writes_to r a b \<Longrightarrow> writes_to r b c \<Longrightarrow> writes_to r a c"
  unfolding writes_to_def by (auto intro: same_objects_trans)

lemma set_own_writes_to: "writes_to r w (set_own r k v w)"
  by (simp add: writes_to_def set_own_same_objects proto_of_set_own heap_None_set_own
      own_prop_set_own)

text \<open>
  An assignment changes at most the property of that name of that object; it makes the
  property, unless the name is \<^verbatim>\<open>__proto__\<close>.  It takes no property away.
\<close>

lemma own_prop_set_prototype:
  "set_prototype r v w = Inr w' \<Longrightarrow> own_prop w' q k = own_prop w q k"
  by (auto simp: set_prototype_def own_prop_def split: option.splits jsval.splits if_splits)

lemma heap_None_set_prototype:
  "set_prototype r v w = Inr w' \<Longrightarrow> (heap w' q = None) = (heap w q = None)"
  by (auto simp: set_prototype_def split: option.splits jsval.splits if_splits)

lemma proto_of_set_prototype:
  "set_prototype r v w = Inr w' \<Longrightarrow> q \<noteq> r \<Longrightarrow> proto_of w' q = proto_of w q"
  by (auto simp: set_prototype_def proto_of_def split: option.splits jsval.splits if_splits)

lemma set_prop_other:
  "set_prop r k v w = Inr w' \<Longrightarrow> q \<noteq> r \<or> k' \<noteq> k \<Longrightarrow> own_prop w' q k' = own_prop w q k'"
  by (auto simp: set_prop_def own_prop_set_own own_prop_set_prototype split: if_splits)

lemma set_prop_same:
  "set_prop r k v w = Inr w' \<Longrightarrow> k \<noteq> ''__proto__'' \<Longrightarrow> heap w r \<noteq> None \<Longrightarrow>
     own_prop w' r k = Some v"
  by (auto simp: set_prop_def own_prop_set_own split: if_splits)

lemma set_prop_heap_None:
  "set_prop r k v w = Inr w' \<Longrightarrow> (heap w' q = None) = (heap w q = None)"
  by (auto simp: set_prop_def heap_None_set_own heap_None_set_prototype split: if_splits)

lemma set_prop_proto_of:
  "set_prop r k v w = Inr w' \<Longrightarrow> q \<noteq> r \<Longrightarrow> proto_of w' q = proto_of w q"
  by (auto simp: set_prop_def proto_of_set_own proto_of_set_prototype split: if_splits)

lemma set_prop_keeps_own:
  "set_prop r k v w = Inr w' \<Longrightarrow> own_prop w q k' \<noteq> None \<Longrightarrow> own_prop w' q k' \<noteq> None"
  by (auto simp: set_prop_def own_prop_set_own own_prop_set_prototype split: if_splits)

lemma set_prop_plain:
  "k \<noteq> ''__proto__'' \<Longrightarrow> set_prop r k v w = Inr (set_own r k v w)"
  by (simp add: set_prop_def)

subsection \<open>Chains of prototypes\<close>

lemma proto_chain_cong:
  "(\<And>q. proto_of w' q = proto_of w q) \<Longrightarrow> proto_chain n w' r = proto_chain n w r"
  by (induct n arbitrary: r) (simp_all split: option.split)

lemma writes_to_prototypes: "writes_to x w w' \<Longrightarrow> prototypes w' r = prototypes w r"
proof -
  assume a: "writes_to x w w'"
  then have "next_ref w' = next_ref w" by (simp add: writes_to_def same_objects_def)
  moreover from a have "proto_chain n w' r = proto_chain n w r" for n
    by (intro proto_chain_cong) (simp add: writes_to_def)
  ultimately show ?thesis by (simp add: prototypes_def)
qed

lemma first_own_cong:
  "(\<And>q. q \<in> set rs \<Longrightarrow> own_prop w' q k = own_prop w q k) \<Longrightarrow> first_own w' k rs = first_own w k rs"
  by (induct rs) (simp_all split: option.split)

lemma writes_to_engine:
  assumes "writes_to x w w'"
  shows "Object_prototype w' = Object_prototype w" "Table_prototype w' = Table_prototype w"
    "guard_answers w' = guard_answers w" "next_ref w' = next_ref w" "globals w' = globals w"
    "env w' = env w"
  using assms heap_only_engine [of w w'] heap_only_fields [of w w']
  by (simp_all add: writes_to_def same_objects_def)

text \<open>A write to an object leaves what is read from the objects that do not inherit from it.\<close>

lemma writes_to_get_prop:
  assumes "writes_to x w w'" and "x \<notin> set (r # prototypes w r)"
  shows "get_prop w' r k = get_prop w r k"
proof -
  have p: "prototypes w' r = prototypes w r" using assms(1) by (rule writes_to_prototypes)
  have o: "own_prop w' q k' = own_prop w q k'" if "q \<in> set (r # prototypes w r)" for q k'
    using assms that by (auto simp: writes_to_def)
  have f: "first_own w' k' (r # prototypes w r) = first_own w k' (r # prototypes w r)" for k'
    by (rule first_own_cong) (rule o)
  from assms(1) have q: "proto_of w' r = proto_of w r" by (simp add: writes_to_def)
  note e = writes_to_engine(1) [OF assms(1)]
  show ?thesis by (simp only: get_prop_def has_proto_accessor_def p f q e)
qed

lemma writes_to_instanceof:
  "writes_to x w w' \<Longrightarrow> instanceof_Table w' v = instanceof_Table w v"
  by (cases v) (simp_all add: instanceof_Table_def writes_to_prototypes writes_to_engine(2))

subsection \<open>The guard\<close>

lemma same_objects_guard_call:
  assumes "same_objects w w'"
  shows "guard_call w' v i = guard_call w v i"
proof -
  from assms have k: "kind_of w' r = kind_of w r" for r by (simp add: same_objects_def)
  from assms have a: "guard_answers w' = guard_answers w"
    using heap_only_engine(4) by (simp add: same_objects_def)
  show ?thesis by (simp only: guard_call_def k a)
qed

lemma standard_engine_grows:
  assumes "standard_engine w" and "grows w w'"
  shows "standard_engine w'"
proof -
  from assms(1) obtain b where b:
    "Object_prototype w < next_ref w" "Table_prototype w < next_ref w" "b < next_ref w"
    "Table_prototype w \<noteq> Object_prototype w"
    "own_prop w (Object_prototype w) ''hasOwnProperty'' = Some (JObj b)"
    "kind_of w b = Some HasOwnProperty"
    "heap w (Table_prototype w) \<noteq> None"
    "proto_of w (Table_prototype w) = Some (Object_prototype w)"
    "own_prop w (Table_prototype w) ''hasOwnProperty'' = None"
    "proto_of w (Object_prototype w) = None"
    unfolding standard_engine_def by blast
  from assms(2) have e: "Object_prototype w' = Object_prototype w" "Table_prototype w' = Table_prototype w"
    using heap_only_engine [of w w'] by (simp_all add: grows_def)
  from assms(2) have h: "heap w' r = heap w r" if "r < next_ref w" for r
    using that by (simp add: grows_def)
  from assms(2) have n: "next_ref w \<le> next_ref w'" by (simp add: grows_def)
  have "Object_prototype w' < next_ref w' \<and> Table_prototype w' < next_ref w' \<and> b < next_ref w' \<and>
        Table_prototype w' \<noteq> Object_prototype w' \<and>
        own_prop w' (Object_prototype w') ''hasOwnProperty'' = Some (JObj b) \<and>
        kind_of w' b = Some HasOwnProperty \<and>
        heap w' (Table_prototype w') \<noteq> None \<and>
        proto_of w' (Table_prototype w') = Some (Object_prototype w') \<and>
        own_prop w' (Table_prototype w') ''hasOwnProperty'' = None \<and>
        proto_of w' (Object_prototype w') = None"
    using b e n h [of "Object_prototype w"] h [of "Table_prototype w"] h [of b]
    by (simp add: own_prop_def proto_of_def kind_of_def)
  then show ?thesis unfolding standard_engine_def by blast
qed

lemma standard_engine_writes:
  assumes "standard_engine w" and "writes_to x w w'"
    and "x \<noteq> Object_prototype w" and "x \<noteq> Table_prototype w"
  shows "standard_engine w'"
proof -
  from assms(1) obtain b where b:
    "Object_prototype w < next_ref w" "Table_prototype w < next_ref w" "b < next_ref w"
    "Table_prototype w \<noteq> Object_prototype w"
    "own_prop w (Object_prototype w) ''hasOwnProperty'' = Some (JObj b)"
    "kind_of w b = Some HasOwnProperty"
    "heap w (Table_prototype w) \<noteq> None"
    "proto_of w (Table_prototype w) = Some (Object_prototype w)"
    "own_prop w (Table_prototype w) ''hasOwnProperty'' = None"
    "proto_of w (Object_prototype w) = None"
    unfolding standard_engine_def by blast
  note e = writes_to_engine [OF assms(2)]
  from assms(2) have
    k: "kind_of w' b = kind_of w b" and p: "\<And>q. proto_of w' q = proto_of w q" and
    h: "\<And>q. (heap w' q = None) = (heap w q = None)" and
    o: "\<And>q k. q \<noteq> x \<Longrightarrow> own_prop w' q k = own_prop w q k"
    by (simp_all add: writes_to_def same_objects_def)
  have "Object_prototype w' < next_ref w' \<and> Table_prototype w' < next_ref w' \<and> b < next_ref w' \<and>
        Table_prototype w' \<noteq> Object_prototype w' \<and>
        own_prop w' (Object_prototype w') ''hasOwnProperty'' = Some (JObj b) \<and>
        kind_of w' b = Some HasOwnProperty \<and>
        heap w' (Table_prototype w') \<noteq> None \<and>
        proto_of w' (Table_prototype w') = Some (Object_prototype w') \<and>
        own_prop w' (Table_prototype w') ''hasOwnProperty'' = None \<and>
        proto_of w' (Object_prototype w') = None"
    using b e(1,2,4) k p h o [of "Object_prototype w"] o [of "Table_prototype w"] assms(3,4)
    by simp
  then show ?thesis unfolding standard_engine_def by blast
qed

text \<open>
  With the prototypes of the engine, the chain of a table is \<^verbatim>\<open>shine.Table.prototype\<close>
  and \<^verbatim>\<open>Object.prototype\<close>; the table is an instance of \<^verbatim>\<open>shine.Table\<close>, and its
  guard is the function of the engine unless the table has a property of that name.
\<close>

lemma standard_table_chain:
  assumes "standard_engine w" and "proto_of w t = Some (Table_prototype w)"
  shows "prototypes w t = [Table_prototype w, Object_prototype w]"
proof -
  from assms(1) have b:
    "Object_prototype w < next_ref w" "Table_prototype w < next_ref w"
    "Table_prototype w \<noteq> Object_prototype w"
    "proto_of w (Table_prototype w) = Some (Object_prototype w)"
    "proto_of w (Object_prototype w) = None"
    unfolding standard_engine_def by blast+
  from b(1-3) obtain n where n: "next_ref w = Suc (Suc n)"
    by (cases "next_ref w"; cases "next_ref w - 1") auto
  show ?thesis
    using assms(2) b(4,5) by (cases n) (simp_all add: prototypes_def n)
qed

lemma standard_table_instanceof:
  "standard_engine w \<Longrightarrow> proto_of w t = Some (Table_prototype w) \<Longrightarrow> instanceof_Table w (JObj t)"
  by (simp add: instanceof_Table_def standard_table_chain)

lemma standard_table_guard:
  assumes "standard_engine w" and "proto_of w t = Some (Table_prototype w)"
    and "own_prop w t ''hasOwnProperty'' = None"
  shows "own_guard w t i = Inr True"
proof -
  from assms(1) obtain b where b:
    "own_prop w (Object_prototype w) ''hasOwnProperty'' = Some (JObj b)"
    "kind_of w b = Some HasOwnProperty"
    "own_prop w (Table_prototype w) ''hasOwnProperty'' = None"
    unfolding standard_engine_def by blast
  from standard_table_chain [OF assms(1,2)] assms(3) b(1,3)
  have "get_prop w t ''hasOwnProperty'' = JObj b" by (simp add: get_prop_def)
  with b(2) show ?thesis by (simp add: own_guard_def guard_call_def)
qed

lemma standard_lib_guard:
  assumes "standard_engine w" and "''hasOwnProperty'' \<notin> fst ` set lib"
  shows "lib_guard w lib i = Inr True"
proof -
  from assms(1) obtain b where b:
    "own_prop w (Object_prototype w) ''hasOwnProperty'' = Some (JObj b)"
    "kind_of w b = Some HasOwnProperty"
    unfolding standard_engine_def by blast
  from assms(2) have "map_of lib ''hasOwnProperty'' = None" by (simp add: map_of_eq_None_iff)
  with b get_prop_own [OF b(1)] show ?thesis by (simp add: lib_guard_def guard_call_def)
qed

subsection \<open>What binding a library leaves on the heap\<close>

lemma map_of_put_result:
  "map_of (put_result i b acc) k =
     (if k = i \<and> i \<noteq> ''__proto__'' then Some b else map_of acc k)"
  by (simp add: put_result_def update_conv')

lemma keys_put_result:
  "fst ` set (put_result i b acc) =
     (if i = ''__proto__'' then fst ` set acc else insert i (fst ` set acc))"
  by (simp add: put_result_def dom_update)

text \<open>One round of the loop of \<^verbatim>\<open>_bindLib\<close> that ends with a value.\<close>

lemma bind_entries_Cons:
  assumes "bind_entries lib ((i, v) # rest) acc w = Value res w'"
  obtains (Skipped) "lib_guard w lib i = Inr False" and "bind_entries lib rest acc w = Value res w'"
  | (Bound) b w0 where "lib_guard w lib i = Inr True" and "bind_entry v w = Value b w0"
      and "bind_entries lib rest (put_result i b acc) w0 = Value res w'"
proof (cases "lib_guard w lib i")
  case (Inl e)
  with assms show ?thesis by simp
next
  case (Inr t)
  show ?thesis
  proof (cases t)
    case False
    with Inr assms show ?thesis using Skipped by simp
  next
    case True
    show ?thesis
    proof (cases "bind_entry v w")
      case (Fault e w0)
      with Inr True assms show ?thesis by simp
    next
      case (Value b w0)
      with Inr True assms show ?thesis using Bound by simp
    qed
  qed
qed

lemma bind_entries_absent:
  "bind_entries lib rest acc w = Value res w' \<Longrightarrow> k \<notin> fst ` set rest \<Longrightarrow>
     map_of res k = map_of acc k"
proof (induct rest arbitrary: acc w)
  case Nil
  then show ?case by simp
next
  case (Cons a rest)
  obtain i v where a: "a = (i, v)" by (cases a)
  from Cons(3) a have n: "k \<noteq> i" "k \<notin> fst ` set rest" by auto
  from Cons(2) [unfolded a] show ?case
  proof (cases rule: bind_entries_Cons)
    case Skipped
    from Cons(1) [OF Skipped(2) n(2)] show ?thesis .
  next
    case (Bound b w0)
    from Cons(1) [OF Bound(3) n(2)] n(1) show ?thesis by (simp add: map_of_put_result)
  qed
qed

lemma bind_entries_no_proto:
  "bind_entries lib rest acc w = Value res w' \<Longrightarrow> ''__proto__'' \<notin> fst ` set acc \<Longrightarrow>
     ''__proto__'' \<notin> fst ` set res"
proof (induct rest arbitrary: acc w)
  case Nil
  then show ?case by simp
next
  case (Cons a rest)
  obtain i v where a: "a = (i, v)" by (cases a)
  from Cons(2) [unfolded a] show ?case
  proof (cases rule: bind_entries_Cons)
    case Skipped
    from Cons(1) [OF Skipped(2) Cons(3)] show ?thesis .
  next
    case (Bound b w0)
    from Cons(3) have "''__proto__'' \<notin> fst ` set (put_result i b acc)"
      by (simp add: keys_put_result)
    from Cons(1) [OF Bound(3) this] show ?thesis .
  qed
qed

lemma bind_entries_lookup:
  assumes "standard_engine w" and "''hasOwnProperty'' \<notin> fst ` set lib"
    and "bind_entries lib rest acc w = Value res w'" and "distinct (map fst rest)"
    and "(k, en) \<in> set rest" and "k \<noteq> ''__proto__''"
  shows "\<exists>wa b wb. grows w wa \<and> bind_entry en wa = Value b wb \<and> grows wb w' \<and> map_of res k = Some b"
  using assms(1,3,4,5)
proof (induct rest arbitrary: acc w)
  case Nil
  then show ?case by simp
next
  case (Cons a rest)
  obtain i v where a: "a = (i, v)" by (cases a)
  from standard_lib_guard [OF Cons(2) assms(2)] have t: "lib_guard w lib i = Inr True" .
  from Cons(3) [unfolded a] show ?case
  proof (cases rule: bind_entries_Cons)
    case Skipped
    with t show ?thesis by simp
  next
    case (Bound b0 w0)
    have g0: "grows w w0" using bind_grows(2) [of w v] Bound(2) by simp
    show ?thesis
    proof (cases "(k, en) = (i, v)")
      case True
      from Cons(4) a True have "k \<notin> fst ` set rest" by auto
      from bind_entries_absent [OF Bound(3) this] True assms(6)
      have "map_of res k = Some b0" by (simp add: map_of_put_result)
      moreover have "grows w0 w'"
        using bind_grows(1) [of w0 lib rest "put_result i b0 acc"] Bound(3) by simp
      ultimately show ?thesis using True Bound(2) grows_refl by blast
    next
      case False
      with Cons(5) a have "(k, en) \<in> set rest" by auto
      moreover from Cons(4) have "distinct (map fst rest)" by simp
      moreover have "standard_engine w0" using Cons(2) g0 by (rule standard_engine_grows)
      ultimately obtain wa b' wb where
        "grows w0 wa" "bind_entry en wa = Value b' wb" "grows wb w'" "map_of res k = Some b'"
        using Cons(1) [OF _ Bound(3)] by blast
      with g0 show ?thesis by (blast intro: grows_trans)
    qed
  qed
qed

lemma bind_entry_table:
  assumes "is_table_entry v" and "bind_entry v w = Value b w'"
  shows "\<exists>r ps. b = JObj r \<and> next_ref w \<le> r \<and> next_ref w' = Suc r \<and>
           heap w' r = Some \<lparr>kind = Plain, proto = Some (Table_prototype w), props = ps\<rparr>"
proof (cases v)
  case (TableLiteral ps)
  with assms(2) show ?thesis by (auto simp: new_Table_def alloc_def)
next
  case (NestedLibrary lib)
  show ?thesis
  proof (cases "bind_entries lib lib [] w")
    case (Fault e w1)
    with assms(2) NestedLibrary show ?thesis by simp
  next
    case (Value res w1)
    from bind_grows(1) [of w lib lib "[]"] Value have g: "grows w w1" by simp
    then have "next_ref w \<le> next_ref w1" "Table_prototype w1 = Table_prototype w"
      using heap_only_engine(2) [of w w1] by (simp_all add: grows_def)
    with assms(2) NestedLibrary Value show ?thesis by (auto simp: new_Table_def alloc_def)
  qed
qed (use assms(1) in simp_all)

lemma bind_entry_nested:
  assumes "bind_entry (NestedLibrary lib) w = Value b w'"
  shows "\<exists>res w1. bind_entries lib lib [] w = Value res w1 \<and> b = JObj (next_ref w1) \<and>
           next_ref w' = Suc (next_ref w1) \<and>
           heap w' (next_ref w1) =
             Some \<lparr>kind = Plain, proto = Some (Table_prototype w), props = res\<rparr> \<and>
           (\<forall>r < next_ref w1. heap w' r = heap w1 r)"
proof (cases "bind_entries lib lib [] w")
  case (Fault e w1)
  with assms show ?thesis by simp
next
  case (Value res w1)
  from bind_grows(1) [of w lib lib "[]"] Value have "grows w w1" by simp
  then have "Table_prototype w1 = Table_prototype w"
    using heap_only_engine(2) [of w w1] by (simp add: grows_def)
  with assms Value show ?thesis by (auto simp: new_Table_def alloc_def)
qed

lemma bindLib_result:
  assumes "bindLib lib w = Value g w1"
  shows "\<exists>res w0. bind_entries lib lib [] w = Value res w0 \<and> g = next_ref w0 \<and>
           next_ref w1 = Suc g \<and>
           heap w1 g = Some \<lparr>kind = Plain, proto = Some (Table_prototype w), props = res\<rparr> \<and>
           (\<forall>r < g. heap w1 r = heap w0 r)"
proof (cases "bind_entries lib lib [] w")
  case (Fault e w0)
  with assms show ?thesis by (simp add: bindLib_def)
next
  case (Value res w0)
  from bind_grows(1) [of w lib lib "[]"] Value have "grows w w0" by simp
  then have "Table_prototype w0 = Table_prototype w"
    using heap_only_engine(2) [of w w0] by (simp add: grows_def)
  with assms Value show ?thesis by (auto simp: bindLib_def new_Table_def alloc_def)
qed

text \<open>
  A top-level entry of the library that is a table or a plain object is bound to a new
  table, which the globals have under the name of the entry.
\<close>

lemma bindLib_table:
  assumes std: "standard_engine w" and ns: "''hasOwnProperty'' \<notin> fst ` set lib"
    and b: "bindLib lib w = Value g w1" and dl: "distinct (map fst lib)"
    and en: "(i, en) \<in> set lib" and tb: "is_table_entry en" and np: "i \<noteq> ''__proto__''"
  shows "\<exists>t. own_prop w1 g i = Some (JObj t) \<and> next_ref w \<le> t \<and> t < g \<and>
           heap w1 t \<noteq> None \<and> proto_of w1 t = Some (Table_prototype w1)"
proof -
  from bindLib_result [OF b] obtain G w0 where
    G: "bind_entries lib lib [] w = Value G w0" and g: "g = next_ref w0" and
    hg: "heap w1 g = Some \<lparr>kind = Plain, proto = Some (Table_prototype w), props = G\<rparr>" and
    old: "\<forall>r < g. heap w1 r = heap w0 r" by blast
  from bind_entries_lookup [OF std ns G dl en np] obtain wa bt wb where
    ga: "grows w wa" and bt: "bind_entry en wa = Value bt wb" and
    gb: "grows wb w0" and mt: "map_of G i = Some bt" by blast
  from bind_entry_table [OF tb bt] obtain t ps where
    t: "bt = JObj t" and lo: "next_ref wa \<le> t" and nb: "next_ref wb = Suc t" and
    ht: "heap wb t = Some \<lparr>kind = Plain, proto = Some (Table_prototype wa), props = ps\<rparr>" by blast
  from nb grows_next_ref [OF gb] g have tg: "t < g" by simp
  have "heap w0 t = heap wb t" using grows_heap [OF gb, of t] nb by simp
  moreover have "heap w1 t = heap w0 t" using old tg by simp
  ultimately have h1: "heap w1 t = Some \<lparr>kind = Plain, proto = Some (Table_prototype wa), props = ps\<rparr>"
    using ht by simp
  have "Table_prototype wa = Table_prototype w"
    using heap_only_engine(2) [OF grows_heap_only [OF ga]] .
  moreover have "Table_prototype w1 = Table_prototype w"
    using heap_only_engine(2) [OF grows_heap_only [OF bindLib_grows [of w lib]]] b by simp
  ultimately have "proto_of w1 t = Some (Table_prototype w1)" using h1 by (simp add: proto_of_def)
  moreover from hg mt t have "own_prop w1 g i = Some (JObj t)" by (simp add: own_prop_def)
  moreover from lo grows_next_ref [OF ga] have "next_ref w \<le> t" by simp
  ultimately show ?thesis using tg h1 by simp
qed

text \<open>
  A library with a \<^verbatim>\<open>package\<close> object that has a \<^verbatim>\<open>loaded\<close> table or object is
  bound to a table whose \<^verbatim>\<open>package.loaded\<close> is a table; the three tables are
  different new objects.  The globals have no property \<^verbatim>\<open>hasOwnProperty\<close> and no
  property \<^verbatim>\<open>__proto__\<close>.
\<close>

lemma bindLib_package:
  assumes std: "standard_engine w" and ns: "''hasOwnProperty'' \<notin> fst ` set lib"
    and nsp: "''hasOwnProperty'' \<notin> fst ` set pk"
    and b: "bindLib lib w = Value g w1"
    and dl: "distinct (map fst lib)" and pl: "(''package'', NestedLibrary pk) \<in> set lib"
    and dp: "distinct (map fst pk)" and ll: "(''loaded'', vl) \<in> set pk" and tl: "is_table_entry vl"
  obtains pr lr where "namespace_at w1 g pr lr" and "next_ref w \<le> lr" and "next_ref w \<le> g"
    and "proto_of w1 g = Some (Table_prototype w1)"
    and "own_prop w1 g ''hasOwnProperty'' = None"
    and "''__proto__'' \<notin> set (own_keys w1 g)"
proof -
  from bindLib_result [OF b] obtain G w0 where
    G: "bind_entries lib lib [] w = Value G w0" and g: "g = next_ref w0" and
    hg: "heap w1 g = Some \<lparr>kind = Plain, proto = Some (Table_prototype w), props = G\<rparr>" and
    old: "\<forall>r < g. heap w1 r = heap w0 r" by blast
  have np: "''package'' \<noteq> ''__proto__''" "''loaded'' \<noteq> ''__proto__''" by simp_all
  from bind_entries_lookup [OF std ns G dl pl np(1)] obtain wa bp wb where
    ga: "grows w wa" and bp: "bind_entry (NestedLibrary pk) wa = Value bp wb" and
    gb: "grows wb w0" and mp: "map_of G ''package'' = Some bp" by blast
  from bind_entry_nested [OF bp] obtain P wc where
    P: "bind_entries pk pk [] wa = Value P wc" and bp': "bp = JObj (next_ref wc)" and
    nb: "next_ref wb = Suc (next_ref wc)" and
    hp: "heap wb (next_ref wc) =
           Some \<lparr>kind = Plain, proto = Some (Table_prototype wa), props = P\<rparr>" and
    oldp: "\<forall>r < next_ref wc. heap wb r = heap wc r" by blast
  let ?pr = "next_ref wc"
  have sa: "standard_engine wa" using std ga by (rule standard_engine_grows)
  from bind_entries_lookup [OF sa nsp P dp ll np(2)] obtain wd bl we where
    gd: "grows wa wd" and bl: "bind_entry vl wd = Value bl we" and ge: "grows we wc" and
    ml: "map_of P ''loaded'' = Some bl" by blast
  from bind_entry_table [OF tl bl] obtain lr L where
    bl': "bl = JObj lr" and lo: "next_ref wd \<le> lr" and ne: "next_ref we = Suc lr" and
    hl: "heap we lr = Some \<lparr>kind = Plain, proto = Some (Table_prototype wd), props = L\<rparr>" by blast
  from ne grows_next_ref [OF ge] have lp: "lr < ?pr" by simp
  from nb grows_next_ref [OF gb] g have pg: "?pr < g" by simp
  have "heap wc lr = heap we lr" using grows_heap [OF ge, of lr] ne by simp
  moreover have "heap wb lr = heap wc lr" using oldp lp by simp
  moreover have "heap w0 lr = heap wb lr" using grows_heap [OF gb, of lr] nb lp by simp
  moreover have "heap w1 lr = heap w0 lr" using old lp pg by simp
  ultimately have hl1: "heap w1 lr = Some \<lparr>kind = Plain, proto = Some (Table_prototype wd), props = L\<rparr>"
    using hl by simp
  have "heap w0 ?pr = heap wb ?pr" using grows_heap [OF gb, of ?pr] nb by simp
  moreover have "heap w1 ?pr = heap w0 ?pr" using old pg by simp
  ultimately have hp1: "heap w1 ?pr = Some \<lparr>kind = Plain, proto = Some (Table_prototype wa), props = P\<rparr>"
    using hp by simp
  from hg mp bp' have "own_prop w1 g ''package'' = Some (JObj ?pr)" by (simp add: own_prop_def)
  moreover from hp1 ml bl' have "own_prop w1 ?pr ''loaded'' = Some (JObj lr)"
    by (simp add: own_prop_def)
  ultimately have n: "namespace_at w1 g ?pr lr"
    using hg hl1 lp pg by (simp add: namespace_at_def)
  from lo grows_next_ref [OF gd] grows_next_ref [OF ga] have l1: "next_ref w \<le> lr" by simp
  with lp pg have l2: "next_ref w \<le> g" by simp
  have "Table_prototype w1 = Table_prototype w"
    using heap_only_engine(2) [OF grows_heap_only [OF bindLib_grows [of w lib]]] b by simp
  with hg have p: "proto_of w1 g = Some (Table_prototype w1)" by (simp add: proto_of_def)
  from bind_entries_absent [OF G ns] hg have h: "own_prop w1 g ''hasOwnProperty'' = None"
    by (simp add: own_prop_def)
  from bind_entries_no_proto [OF G] hg have k: "''__proto__'' \<notin> set (own_keys w1 g)"
    by (simp add: own_keys_def)
  from n l1 l2 p h k show ?thesis by (rule that)
qed

subsection \<open>Registering the tables in package.loaded\<close>

lemma namespace_at_writes:
  "namespace_at w g pr lr \<Longrightarrow> writes_to lr w w' \<Longrightarrow> namespace_at w' g pr lr"
  by (simp add: namespace_at_def writes_to_def)

lemma register_loaded_spec:
  assumes "namespace_at w g pr lr" and "standard_engine w"
    and "proto_of w g = Some (Table_prototype w)" and "own_prop w g ''hasOwnProperty'' = None"
    and "lr \<noteq> Object_prototype w" and "lr \<noteq> Table_prototype w"
    and np: "''__proto__'' \<notin> set ks"
  shows "\<exists>w'. register_loaded ks g w = Returns w' \<and> writes_to lr w w' \<and>
           (\<forall>i. own_prop w' lr i =
              (if i \<in> set ks \<and> instanceof_Table w (get_prop w g i) then Some (get_prop w g i)
               else own_prop w lr i))"
  using assms(1-6) np
proof (induct ks arbitrary: w)
  case Nil
  then show ?case by (simp add: writes_to_refl)
next
  case (Cons i ks)
  from Cons(8) have ni: "i \<noteq> ''__proto__''" and nk: "''__proto__'' \<notin> set ks" by auto
  have gd: "own_guard w g i = Inr True"
    using Cons(3,4,5) by (rule standard_table_guard)
  show ?case
  proof (cases "instanceof_Table w (get_prop w g i)")
    case False
    with gd have "register_loaded (i # ks) g w = register_loaded ks g w" by simp
    moreover from Cons(1) [OF Cons(2-7) nk] obtain w' where
      "register_loaded ks g w = Returns w'" "writes_to lr w w'"
      "\<forall>j. own_prop w' lr j =
         (if j \<in> set ks \<and> instanceof_Table w (get_prop w g j) then Some (get_prop w g j)
          else own_prop w lr j)"
      by blast
    ultimately show ?thesis using False by auto
  next
    case True
    let ?v = "get_prop w g i"
    let ?w1 = "set_own lr i ?v w"
    from Cons(2) have d: "lr \<noteq> g" "lr \<noteq> pr" and hl: "heap w lr \<noteq> None" and
      op: "own_prop w g ''package'' = Some (JObj pr)" and
      ol: "own_prop w pr ''loaded'' = Some (JObj lr)"
      by (simp_all add: namespace_at_def)
    have rd: "read_member w (get_prop w g ''package'') ''loaded'' = Inr (JObj lr)"
      by (simp add: get_prop_own [OF op] get_prop_own [OF ol] read_member_def)
    have wr: "write_member (JObj lr) i ?v w = Inr ?w1"
      using ni by (simp add: write_member_def set_prop_plain)
    from gd True rd wr have step: "register_loaded (i # ks) g w = register_loaded ks g ?w1" by simp
    have s1: "writes_to lr w ?w1" by (rule set_own_writes_to)
    note e1 = writes_to_engine [OF s1]
    have n1: "namespace_at ?w1 g pr lr" using Cons(2) s1 by (rule namespace_at_writes)
    have st1: "standard_engine ?w1" using Cons(3) s1 Cons(6,7) by (rule standard_engine_writes)
    have p1: "proto_of ?w1 g = Some (Table_prototype ?w1)"
      using Cons(4) by (simp add: proto_of_set_own e1(2))
    have h1: "own_prop ?w1 g ''hasOwnProperty'' = None"
      using Cons(5) d(1) by (simp add: own_prop_set_own)
    from Cons(1) [OF n1 st1 p1 h1 _ _ nk] Cons(6,7) e1(1,2) obtain w' where
      r: "register_loaded ks g ?w1 = Returns w'" and s: "writes_to lr ?w1 w'" and
      l: "\<forall>j. own_prop w' lr j =
         (if j \<in> set ks \<and> instanceof_Table ?w1 (get_prop ?w1 g j) then Some (get_prop ?w1 g j)
          else own_prop ?w1 lr j)"
      by auto
    have ch: "prototypes w g = [Table_prototype w, Object_prototype w]"
      using Cons(3,4) by (rule standard_table_chain)
    have g1: "get_prop ?w1 g j = get_prop w g j" for j
      using s1 by (rule writes_to_get_prop) (use ch d(1) Cons(6,7) in simp)
    have t1: "instanceof_Table ?w1 u = instanceof_Table w u" for u
      using s1 by (rule writes_to_instanceof)
    have "\<forall>j. own_prop w' lr j =
         (if j \<in> set (i # ks) \<and> instanceof_Table w (get_prop w g j) then Some (get_prop w g j)
          else own_prop w lr j)"
      using l True hl by (auto simp: g1 t1 own_prop_set_own)
    moreover have "writes_to lr w w'" using s1 s by (rule writes_to_trans)
    ultimately show ?thesis using step r by simp
  qed
qed

subsection \<open>The loop over the host's environment\<close>

lemma env_guard_step:
  assumes "set_prop g j v u = Inr u'" and "env_guard_fixed u ps g"
  shows "env_guard u' ps i = env_guard u ps i \<and> env_guard_fixed u' ps g"
proof -
  note so = set_prop_same_objects [OF assms(1)]
  have e: "Object_prototype u' = Object_prototype u"
    using heap_only_engine(1) [OF same_objects_heap_only [OF so]] .
  show ?thesis
  proof (cases "map_of ps ''hasOwnProperty''")
    case (Some hv)
    then show ?thesis
      by (simp add: env_guard_def env_guard_fixed_def same_objects_guard_call [OF so])
  next
    case None
    with assms(2) obtain hv where
      d: "Object_prototype u \<noteq> g" and
      o: "own_prop u (Object_prototype u) ''hasOwnProperty'' = Some hv"
      by (auto simp: env_guard_fixed_def)
    from set_prop_other [OF assms(1), of "Object_prototype u" "''hasOwnProperty''"] d o
    have o': "own_prop u' (Object_prototype u') ''hasOwnProperty'' = Some hv" by (simp add: e)
    from None get_prop_own [OF o] get_prop_own [OF o'] d o' e show ?thesis
      by (simp add: env_guard_def env_guard_fixed_def same_objects_guard_call [OF so])
  qed
qed

text \<open>One round of the loop of line 57, in a run of the loop that returns.\<close>

lemma overlay_env_Cons:
  assumes "overlay_env (i # ks) ps g u = Returns w'"
  obtains (Skipped) "env_guard u ps i = Inr False" and "overlay_env ks ps g u = Returns w'"
  | (Assigned) u1 where "env_guard u ps i = Inr True"
      and "set_prop g i (env_value ps i) u = Inr u1" and "overlay_env ks ps g u1 = Returns w'"
proof (cases "env_guard u ps i")
  case (Inl e)
  with assms show ?thesis by simp
next
  case (Inr t)
  show ?thesis
  proof (cases t)
    case False
    with Inr assms show ?thesis using Skipped by simp
  next
    case True
    show ?thesis
    proof (cases "set_prop g i (env_value ps i) u")
      case (Inl e)
      with \<open>env_guard u ps i = Inr t\<close> True assms show ?thesis by simp
    next
      case u1: (Inr u1)
      with Inr True assms show ?thesis using Assigned by simp
    qed
  qed
qed

lemma overlay_env_guard:
  "overlay_env ks ps g u = Returns w' \<Longrightarrow> env_guard_fixed u ps g \<Longrightarrow>
     env_guard w' ps i = env_guard u ps i"
proof (induct ks arbitrary: u)
  case Nil
  then show ?case by simp
next
  case (Cons j ks)
  from Cons(2) show ?case
  proof (cases rule: overlay_env_Cons)
    case Skipped
    from Cons(1) [OF Skipped(2) Cons(3)] show ?thesis .
  next
    case (Assigned u1)
    from env_guard_step [OF Assigned(2) Cons(3), of i] Cons(1) [OF Assigned(3)]
    show ?thesis by simp
  qed
qed

text \<open>
  When the loop returns, the globals have the value of the environment under every key
  that has passed the guard, but for the key \<^verbatim>\<open>__proto__\<close>; their other properties
  and the properties of the other objects are as before.
\<close>

lemma overlay_env_result:
  assumes "overlay_env ks ps g u = Returns w'" and "env_guard_fixed u ps g" and "heap u g \<noteq> None"
  shows "heap w' g \<noteq> None \<and>
         (\<forall>q k. q \<noteq> g \<longrightarrow> own_prop w' q k = own_prop u q k) \<and>
         (\<forall>q. q \<noteq> g \<longrightarrow> proto_of w' q = proto_of u q) \<and>
         (\<forall>k. k \<noteq> ''__proto__'' \<longrightarrow>
            own_prop w' g k =
              (if k \<in> set ks \<and> env_guard w' ps k = Inr True then Some (env_value ps k)
               else own_prop u g k))"
  using assms
proof (induct ks arbitrary: u)
  case Nil
  then show ?case by simp
next
  case (Cons i ks)
  from Cons(2) show ?case
  proof (cases rule: overlay_env_Cons)
    case Skipped
    from overlay_env_guard [OF Skipped(2) Cons(3), of i] Skipped(1)
    have "env_guard w' ps i = Inr False" by simp
    with Cons(1) [OF Skipped(2) Cons(3,4)] show ?thesis by auto
  next
    case (Assigned u1)
    from env_guard_step [OF Assigned(2) Cons(3)] have f1: "env_guard_fixed u1 ps g" by simp
    from set_prop_heap_None [OF Assigned(2), of g] Cons(4) have h1: "heap u1 g \<noteq> None" by simp
    from overlay_env_guard [OF Assigned(3) f1, of i] env_guard_step [OF Assigned(2) Cons(3), of i]
      Assigned(1)
    have gi: "env_guard w' ps i = Inr True" by simp
    from Cons(1) [OF Assigned(3) f1 h1] have
      a: "heap w' g \<noteq> None" and
      b: "\<forall>q k. q \<noteq> g \<longrightarrow> own_prop w' q k = own_prop u1 q k" and
      c: "\<forall>q. q \<noteq> g \<longrightarrow> proto_of w' q = proto_of u1 q" and
      d: "\<forall>k. k \<noteq> ''__proto__'' \<longrightarrow>
            own_prop w' g k =
              (if k \<in> set ks \<and> env_guard w' ps k = Inr True then Some (env_value ps k)
               else own_prop u1 g k)" by simp_all
    have b': "\<forall>q k. q \<noteq> g \<longrightarrow> own_prop w' q k = own_prop u q k"
      using b set_prop_other [OF Assigned(2)] by simp
    have c': "\<forall>q. q \<noteq> g \<longrightarrow> proto_of w' q = proto_of u q"
      using c set_prop_proto_of [OF Assigned(2)] by simp
    have d': "\<forall>k. k \<noteq> ''__proto__'' \<longrightarrow>
            own_prop w' g k =
              (if k \<in> set (i # ks) \<and> env_guard w' ps k = Inr True then Some (env_value ps k)
               else own_prop u g k)"
    proof (intro allI impI)
      fix k :: string
      assume k: "k \<noteq> ''__proto__''"
      show "own_prop w' g k =
              (if k \<in> set (i # ks) \<and> env_guard w' ps k = Inr True then Some (env_value ps k)
               else own_prop u g k)"
      proof (cases "k = i")
        case True
        with set_prop_same [OF Assigned(2) _ Cons(4)] k
        have "own_prop u1 g k = Some (env_value ps k)" by simp
        with d k True gi show ?thesis by simp
      next
        case False
        with set_prop_other [OF Assigned(2), of g k] have "own_prop u1 g k = own_prop u g k" by simp
        with d k False show ?thesis by simp
      qed
    qed
    from a b' c' d' show ?thesis by simp
  qed
qed

subsection \<open>What the constructor has done when it returns\<close>

lemma resetGlobals_Returns:
  assumes "resetGlobals lib w = Returns w'"
  obtains g w1 w3 l w4 where "bindLib lib w = Value g w1"
    and "register_loaded (own_keys (w1\<lparr>globals := Some g\<rparr>) g) g (w1\<lparr>globals := Some g\<rparr>) = Returns w3"
    and "read_member w3 (get_prop w3 g ''package'') ''loaded'' = Inr l"
    and "write_member l ''_G'' (JObj g) w3 = Inr w4"
    and "(case env w4 of None \<Rightarrow> Returns w4 | Some ps \<Rightarrow> overlay_env (map fst ps) ps g w4) = Returns w'"
  using assms
  by (auto simp: resetGlobals_def Let_def split: result.splits outcome.splits sum.splits)

lemma shine_VM_resetGlobals:
  "shine_VM lib e w =
     resetGlobals lib
       (w\<lparr>heap := (heap w)(next_ref w \<mapsto> \<lparr>kind = Plain, proto = Some (Object_prototype w), props = []\<rparr>),
          next_ref := Suc (next_ref w), fileManager := Some (next_ref w), pending_loads := [],
          env := Some (case e of None \<Rightarrow> [] | Some ps \<Rightarrow> ps),
          coroutineStack := Some [], status := RUNNING, resumeStack := [],
          callbackQueue := [], files := None, thread := None, globals := None\<rparr>)"
  by (simp add: shine_VM_def alloc_def)

lemma standard_engine_start:
  assumes "standard_engine w"
  shows "standard_engine
       (w\<lparr>heap := (heap w)(next_ref w \<mapsto> \<lparr>kind = Plain, proto = Some (Object_prototype w), props = []\<rparr>),
          next_ref := Suc (next_ref w), fileManager := Some (next_ref w), pending_loads := [],
          env := Some ps,
          coroutineStack := Some [], status := RUNNING, resumeStack := [],
          callbackQueue := [], files := None, thread := None, globals := None\<rparr>)"
proof -
  from assms obtain b where b:
    "Object_prototype w < next_ref w" "Table_prototype w < next_ref w" "b < next_ref w"
    "Table_prototype w \<noteq> Object_prototype w"
    "own_prop w (Object_prototype w) ''hasOwnProperty'' = Some (JObj b)"
    "kind_of w b = Some HasOwnProperty"
    "heap w (Table_prototype w) \<noteq> None"
    "proto_of w (Table_prototype w) = Some (Object_prototype w)"
    "own_prop w (Table_prototype w) ''hasOwnProperty'' = None"
    "proto_of w (Object_prototype w) = None"
    unfolding standard_engine_def by blast
  show ?thesis
    unfolding standard_engine_def
    by (rule exI [of _ b]) (use b in \<open>simp add: own_prop_def proto_of_def kind_of_def\<close>)
qed

lemma write_member_keeps_own:
  "write_member l k u w = Inr w' \<Longrightarrow> own_prop w q k' \<noteq> None \<Longrightarrow> own_prop w' q k' \<noteq> None"
  by (cases l) (auto simp: write_member_def dest: set_prop_keeps_own)

lemma register_loaded_keeps_own:
  "register_loaded ks g w = Returns w' \<Longrightarrow> own_prop w q k \<noteq> None \<Longrightarrow> own_prop w' q k \<noteq> None"
proof (induct ks arbitrary: w)
  case Nil
  then show ?case by simp
next
  case (Cons i ks)
  show ?case
  proof (cases "own_guard w g i")
    case (Inl e)
    with Cons(2) show ?thesis by simp
  next
    case (Inr b)
    show ?thesis
    proof (cases "b \<and> instanceof_Table w (get_prop w g i)")
      case False
      with Inr have "register_loaded (i # ks) g w = register_loaded ks g w" by auto
      with Cons show ?thesis by simp
    next
      case True
      show ?thesis
      proof (cases "read_member w (get_prop w g ''package'') ''loaded''")
        case (Inl e)
        with True Inr Cons(2) show ?thesis by simp
      next
        case l: (Inr l)
        show ?thesis
        proof (cases "write_member l i (get_prop w g i) w")
          case (Inl e)
          with True l Inr Cons(2) show ?thesis by simp
        next
          case w1: (Inr w1)
          with True l Inr Cons(2) have "register_loaded ks g w1 = Returns w'" by simp
          from Cons(1) [OF this write_member_keeps_own [OF w1 Cons(3)]] show ?thesis .
        qed
      qed
    qed
  qed
qed

lemma standard_engine_globals: "standard_engine (w\<lparr>globals := x\<rparr>) = standard_engine w"
  by (simp add: standard_engine_def own_prop_def proto_of_def kind_of_def)

lemma own_prop_own_keys: "own_prop w r k = Some v \<Longrightarrow> k \<in> set (own_keys w r)"
  by (auto simp: own_prop_def own_keys_def split: option.splits dest: map_of_SomeD
      intro: rev_image_eqI)

lemma instanceof_first:
  "proto_of w t = Some (Table_prototype w) \<Longrightarrow> 0 < next_ref w \<Longrightarrow> instanceof_Table w (JObj t)"
  by (cases "next_ref w") (simp_all add: instanceof_Table_def prototypes_def)

text \<open>
  When \<^verbatim>\<open>_resetGlobals\<close> returns, it has run the loop of line 57 on the globals, a new
  object; and the guard of that loop did not depend on the globals.
\<close>

lemma resetGlobals_overlay:
  assumes std: "standard_engine w" and r: "resetGlobals lib w = Returns w'" and ev: "env w = Some ps"
  obtains g w4 where "overlay_env (map fst ps) ps g w4 = Returns w'" and "globals w4 = Some g"
    and "heap w4 g \<noteq> None" and "env_guard_fixed w4 ps g"
proof -
  from r obtain g w1 w3 l w4 where
    b: "bindLib lib w = Value g w1" and
    reg: "register_loaded (own_keys (w1\<lparr>globals := Some g\<rparr>) g) g (w1\<lparr>globals := Some g\<rparr>) = Returns w3" and
    wr: "write_member l ''_G'' (JObj g) w3 = Inr w4" and
    ov: "(case env w4 of None \<Rightarrow> Returns w4 | Some ps \<Rightarrow> overlay_env (map fst ps) ps g w4) = Returns w'"
    by (rule resetGlobals_Returns)
  let ?w2 = "w1\<lparr>globals := Some g\<rparr>"
  from bindLib_grows [of w lib] b have g1: "grows w w1" by simp
  from bindLib_result [OF b] have h1: "heap w1 g \<noteq> None" and gn: "next_ref w \<le> g"
    using bind_grows(1) [of w lib lib "[]"] by (auto simp: grows_def)
  have s3: "same_objects ?w2 w3"
    using register_loaded_same_objects [of ?w2 "own_keys ?w2 g" g] reg by simp
  have s4: "same_objects w3 w4" using wr by (rule write_member_same_objects)
  have s24: "same_objects ?w2 w4" using s3 s4 by (rule same_objects_trans)
  from heap_only_fields(5) [OF grows_heap_only [OF g1]] ev have "env ?w2 = Some ps" by simp
  with heap_only_fields(5,6) [OF same_objects_heap_only [OF s24]]
  have e4: "env w4 = Some ps" and g4: "globals w4 = Some g" by simp_all
  from same_objects_heap_None [OF s24, of g] h1 have h4: "heap w4 g \<noteq> None" by simp
  from std have o: "Object_prototype w < next_ref w"
    "own_prop w (Object_prototype w) ''hasOwnProperty'' \<noteq> None"
    unfolding standard_engine_def by auto
  have p1: "Object_prototype w1 = Object_prototype w"
    using heap_only_engine(1) [OF grows_heap_only [OF g1]] .
  have p4: "Object_prototype w4 = Object_prototype ?w2"
    using heap_only_engine(1) [OF same_objects_heap_only [OF s24]] .
  from grows_heap [OF g1 o(1)] o(2) have "own_prop ?w2 (Object_prototype w) ''hasOwnProperty'' \<noteq> None"
    by (simp add: own_prop_def)
  from register_loaded_keeps_own [OF reg this]
  have "own_prop w3 (Object_prototype w) ''hasOwnProperty'' \<noteq> None" .
  from write_member_keeps_own [OF wr this] p1 p4
  have "own_prop w4 (Object_prototype w4) ''hasOwnProperty'' \<noteq> None" by simp
  moreover from o(1) gn p1 p4 have "Object_prototype w4 \<noteq> g" by simp
  ultimately have f: "env_guard_fixed w4 ps g" by (simp add: env_guard_fixed_def)
  from ov e4 have "overlay_env (map fst ps) ps g w4 = Returns w'" by simp
  from this g4 h4 f show ?thesis by (rule that)
qed

text \<open>
  The globals of a VM whose constructor has returned: the keys of the host's environment
  that have passed the guard have the host's values.
\<close>

lemma shine_VM_env:
  assumes std: "standard_engine w" and r: "shine_VM lib e w = Returns w'"
    and ps: "ps = (case e of None \<Rightarrow> [] | Some ps \<Rightarrow> ps)"
  obtains g where "globals w' = Some g" and "heap w' g \<noteq> None"
    and "\<forall>k. k \<noteq> ''__proto__'' \<and> env_binds w' ps k \<longrightarrow> own_prop w' g k = Some (env_value ps k)"
proof -
  let ?v = "w\<lparr>heap := (heap w)(next_ref w \<mapsto> \<lparr>kind = Plain, proto = Some (Object_prototype w), props = []\<rparr>),
          next_ref := Suc (next_ref w), fileManager := Some (next_ref w), pending_loads := [],
          env := Some ps,
          coroutineStack := Some [], status := RUNNING, resumeStack := [],
          callbackQueue := [], files := None, thread := None, globals := None\<rparr>"
  from r have rv: "resetGlobals lib ?v = Returns w'" by (simp add: shine_VM_resetGlobals ps)
  have sv: "standard_engine ?v" using std by (rule standard_engine_start)
  have ev: "env ?v = Some ps" by simp
  from sv rv ev obtain g w4 where
    ov: "overlay_env (map fst ps) ps g w4 = Returns w'" and g4: "globals w4 = Some g" and
    h4: "heap w4 g \<noteq> None" and f4: "env_guard_fixed w4 ps g"
    by (rule resetGlobals_overlay)
  from overlay_env_result [OF ov f4 h4] have
    h: "heap w' g \<noteq> None" and
    d: "\<forall>k. k \<noteq> ''__proto__'' \<longrightarrow>
          own_prop w' g k =
            (if k \<in> set (map fst ps) \<and> env_guard w' ps k = Inr True then Some (env_value ps k)
             else own_prop w4 g k)" by simp_all
  from overlay_env_same_objects [of w4 "map fst ps" ps g] ov have "same_objects w4 w'" by simp
  from heap_only_fields(6) [OF same_objects_heap_only [OF this]] g4
  have g': "globals w' = Some g" by simp
  from d have "\<forall>k. k \<noteq> ''__proto__'' \<and> env_binds w' ps k \<longrightarrow> own_prop w' g k = Some (env_value ps k)"
    by (auto simp: env_binds_def)
  with g' h show ?thesis by (rule that)
qed

subsection \<open>The link from package.loaded to the globals\<close>

lemma resetGlobals_links_namespace:
  assumes std: "standard_engine w" and r: "resetGlobals lib w = Returns w'" and ev: "env w = Some ps"
    and ns: "''hasOwnProperty'' \<notin> fst ` set lib" and nsp: "''hasOwnProperty'' \<notin> fst ` set pk"
    and dl: "distinct (map fst lib)" and pl: "(''package'', NestedLibrary pk) \<in> set lib"
    and dp: "distinct (map fst pk)" and ll: "(''loaded'', vl) \<in> set pk" and tl: "is_table_entry vl"
  obtains g pr lr where "globals w' = Some g" and "heap w' g \<noteq> None" and "lr \<noteq> g" and "pr \<noteq> g"
    and "own_prop w' pr ''loaded'' = Some (JObj lr)" and "own_prop w' lr ''_G'' = Some (JObj g)"
    and "\<not> env_binds w' ps ''package'' \<longrightarrow> own_prop w' g ''package'' = Some (JObj pr)"
    and "\<forall>i en. (i, en) \<in> set lib \<and> is_table_entry en \<and> i \<noteq> ''__proto__'' \<longrightarrow>
           (\<exists>t. instanceof_Table w' (JObj t) \<and>
                (i \<noteq> ''_G'' \<longrightarrow> own_prop w' lr i = Some (JObj t)) \<and>
                (\<not> env_binds w' ps i \<longrightarrow> own_prop w' g i = Some (JObj t)))"
proof -
  from r obtain g w1 w3 l w4 where
    b: "bindLib lib w = Value g w1" and
    reg: "register_loaded (own_keys (w1\<lparr>globals := Some g\<rparr>) g) g (w1\<lparr>globals := Some g\<rparr>) = Returns w3" and
    rd: "read_member w3 (get_prop w3 g ''package'') ''loaded'' = Inr l" and
    wr: "write_member l ''_G'' (JObj g) w3 = Inr w4" and
    ov: "(case env w4 of None \<Rightarrow> Returns w4 | Some ps \<Rightarrow> overlay_env (map fst ps) ps g w4) = Returns w'"
    by (rule resetGlobals_Returns)
  define w2 where "w2 = w1\<lparr>globals := Some g\<rparr>"
  from std ns nsp b dl pl dp ll tl obtain pr lr where
    n1: "namespace_at w1 g pr lr" and lo: "next_ref w \<le> lr" and go: "next_ref w \<le> g" and
    pg1: "proto_of w1 g = Some (Table_prototype w1)" and
    hg1: "own_prop w1 g ''hasOwnProperty'' = None" and
    kp1: "''__proto__'' \<notin> set (own_keys w1 g)"
    by (rule bindLib_package)
  from bindLib_grows [of w lib] b have g1: "grows w w1" by simp
  have std1: "standard_engine w1" using std g1 by (rule standard_engine_grows)
  have std2: "standard_engine w2" using std1 by (simp add: w2_def standard_engine_globals)
  have n2: "namespace_at w2 g pr lr"
    using n1 by (simp add: w2_def namespace_at_def own_prop_def)
  have pg2: "proto_of w2 g = Some (Table_prototype w2)"
    using pg1 by (simp add: w2_def proto_of_def)
  have hg2: "own_prop w2 g ''hasOwnProperty'' = None"
    using hg1 by (simp add: w2_def own_prop_def)
  have kp2: "''__proto__'' \<notin> set (own_keys w2 g)"
    using kp1 by (simp add: w2_def own_keys_def)
  have e2: "Object_prototype w2 = Object_prototype w" "Table_prototype w2 = Table_prototype w"
    using heap_only_engine(1,2) [OF grows_heap_only [OF g1]] by (simp_all add: w2_def)
  from std have o: "Object_prototype w < next_ref w" "Table_prototype w < next_ref w"
    unfolding standard_engine_def by auto
  from o lo e2 have lq: "lr \<noteq> Object_prototype w2" "lr \<noteq> Table_prototype w2" by simp_all
  from register_loaded_spec [OF n2 std2 pg2 hg2 lq kp2] reg obtain
    s3: "writes_to lr w2 w3" and
    l3: "\<forall>i. own_prop w3 lr i =
          (if i \<in> set (own_keys w2 g) \<and> instanceof_Table w2 (get_prop w2 g i)
           then Some (get_prop w2 g i) else own_prop w2 lr i)"
    by (auto simp: w2_def)
  have n3: "namespace_at w3 g pr lr" using n2 s3 by (rule namespace_at_writes)
  then have d: "lr \<noteq> g" "lr \<noteq> pr" "pr \<noteq> g" and hl3: "heap w3 lr \<noteq> None" and
    op3: "own_prop w3 g ''package'' = Some (JObj pr)" and
    ol3: "own_prop w3 pr ''loaded'' = Some (JObj lr)"
    by (simp_all add: namespace_at_def)
  have "read_member w3 (get_prop w3 g ''package'') ''loaded'' = Inr (JObj lr)"
    by (simp add: get_prop_own [OF op3] get_prop_own [OF ol3] read_member_def)
  with rd have l: "l = JObj lr" by simp
  with wr have w4: "w4 = set_own lr ''_G'' (JObj g) w3"
    by (simp add: write_member_def set_prop_plain)
  have s4: "writes_to lr w3 w4" unfolding w4 by (rule set_own_writes_to)
  have s24: "writes_to lr w2 w4" using s3 s4 by (rule writes_to_trans)
  note e4 = writes_to_engine [OF s24]
  have n4: "namespace_at w4 g pr lr" using n3 s4 by (rule namespace_at_writes)
  from heap_only_fields(5) [OF grows_heap_only [OF g1]] ev have "env w2 = Some ps"
    by (simp add: w2_def)
  with e4(6) have ev4: "env w4 = Some ps" by simp
  with ov have ov': "overlay_env (map fst ps) ps g w4 = Returns w'" by simp
  have g4: "globals w4 = Some g" using e4(5) by (simp add: w2_def)
  from n4 have h4: "heap w4 g \<noteq> None" by (simp add: namespace_at_def)
  have std4: "standard_engine w4" using std2 s24 lq by (rule standard_engine_writes)
  then have "own_prop w4 (Object_prototype w4) ''hasOwnProperty'' \<noteq> None"
    unfolding standard_engine_def by auto
  moreover from o(1) go e2(1) e4(1) have "Object_prototype w4 \<noteq> g" by simp
  ultimately have f4: "env_guard_fixed w4 ps g" by (simp add: env_guard_fixed_def)
  from overlay_env_result [OF ov' f4 h4] have
    h': "heap w' g \<noteq> None" and
    oth: "\<And>q k. q \<noteq> g \<Longrightarrow> own_prop w' q k = own_prop w4 q k" and
    pro: "\<And>q. q \<noteq> g \<Longrightarrow> proto_of w' q = proto_of w4 q" and
    glo: "\<And>k. k \<noteq> ''__proto__'' \<Longrightarrow>
            own_prop w' g k =
              (if k \<in> set (map fst ps) \<and> env_guard w' ps k = Inr True then Some (env_value ps k)
               else own_prop w4 g k)" by simp_all
  have so: "same_objects w4 w'"
    using overlay_env_same_objects [of w4 "map fst ps" ps g] ov' by simp
  have g': "globals w' = Some g"
    using heap_only_fields(6) [OF same_objects_heap_only [OF so]] g4 by simp
  have e': "Table_prototype w' = Table_prototype w2" "next_ref w' = next_ref w2"
    using heap_only_engine(2) [OF same_objects_heap_only [OF so]] so e4(2,4)
    by (simp_all add: same_objects_def)
  have unb: "own_prop w' g k = own_prop w2 g k" if "\<not> env_binds w' ps k" "k \<noteq> ''__proto__''" for k
  proof -
    from glo [OF that(2)] that(1) have "own_prop w' g k = own_prop w4 g k"
      by (auto simp: env_binds_def)
    also from s24 d(1) have "own_prop w4 g k = own_prop w2 g k" by (simp add: writes_to_def)
    finally show ?thesis .
  qed
  have 1: "own_prop w' pr ''loaded'' = Some (JObj lr)"
    using oth [OF d(3)] n4 by (simp add: namespace_at_def)
  have 2: "own_prop w' lr ''_G'' = Some (JObj g)"
    using oth [OF d(1)] hl3 by (simp add: w4 own_prop_set_own)
  have 3: "\<not> env_binds w' ps ''package'' \<longrightarrow> own_prop w' g ''package'' = Some (JObj pr)"
    using unb [of "''package''"] n2 by (simp add: namespace_at_def)
  have 4: "\<forall>i en. (i, en) \<in> set lib \<and> is_table_entry en \<and> i \<noteq> ''__proto__'' \<longrightarrow>
           (\<exists>t. instanceof_Table w' (JObj t) \<and>
                (i \<noteq> ''_G'' \<longrightarrow> own_prop w' lr i = Some (JObj t)) \<and>
                (\<not> env_binds w' ps i \<longrightarrow> own_prop w' g i = Some (JObj t)))"
  proof (intro allI impI)
    fix i en
    assume a: "(i, en) \<in> set lib \<and> is_table_entry en \<and> i \<noteq> ''__proto__''"
    then have en: "(i, en) \<in> set lib" and tb: "is_table_entry en" and np: "i \<noteq> ''__proto__''"
      by simp_all
    from bindLib_table [OF std ns b dl en tb np] obtain t where
      ot1: "own_prop w1 g i = Some (JObj t)" and tg: "t < g" and
      pt1: "proto_of w1 t = Some (Table_prototype w1)" by blast
    have ot2: "own_prop w2 g i = Some (JObj t)" using ot1 by (simp add: w2_def own_prop_def)
    have pt2: "proto_of w2 t = Some (Table_prototype w2)" using pt1 by (simp add: w2_def proto_of_def)
    have it2: "instanceof_Table w2 (JObj t)" using std2 pt2 by (rule standard_table_instanceof)
    from l3 own_prop_own_keys [OF ot2] it2 get_prop_own [OF ot2]
    have "own_prop w3 lr i = Some (JObj t)" by simp
    with hl3 have "i \<noteq> ''_G'' \<longrightarrow> own_prop w4 lr i = Some (JObj t)"
      by (simp add: w4 own_prop_set_own)
    with oth [OF d(1)] have x: "i \<noteq> ''_G'' \<longrightarrow> own_prop w' lr i = Some (JObj t)" by simp
    from unb [of i] ot2 np have y: "\<not> env_binds w' ps i \<longrightarrow> own_prop w' g i = Some (JObj t)"
      by simp
    from tg have "t \<noteq> g" by simp
    from pro [OF this] s24 pt2 e' have "proto_of w' t = Some (Table_prototype w')"
      by (simp add: writes_to_def)
    moreover from e'(2) e4(4) have "0 < next_ref w'"
      using bindLib_result [OF b] by (auto simp: w2_def)
    ultimately have "instanceof_Table w' (JObj t)" by (rule instanceof_first)
    with x y show "\<exists>t. instanceof_Table w' (JObj t) \<and>
                (i \<noteq> ''_G'' \<longrightarrow> own_prop w' lr i = Some (JObj t)) \<and>
                (\<not> env_binds w' ps i \<longrightarrow> own_prop w' g i = Some (JObj t))" by blast
  qed
  from g' h' d(1,3) 1 2 3 4 show ?thesis by (rule that)
qed

lemma linked_package_loaded:
  "linked w g pr lr \<Longrightarrow> package_loaded w k = Inr (get_prop w lr k)"
  by (simp add: linked_def package_loaded_def getGlobal_def read_member_def get_prop_own)

text \<open>
  Calls of \<^verbatim>\<open>setGlobal\<close> with names other than \<^verbatim>\<open>package\<close> that return keep the
  link; they change no object but the globals, and no global but those they name.
\<close>

lemma setGlobals_keeps_link:
  assumes "linked w g pr lr" and "''package'' \<notin> fst ` set nvs" and "setGlobals nvs w = Returns w'"
  shows "linked w' g pr lr \<and> (\<forall>k. own_prop w' lr k = own_prop w lr k) \<and>
         (\<forall>k. k \<notin> fst ` set nvs \<longrightarrow> own_prop w' g k = own_prop w g k)"
  using assms
proof (induct nvs arbitrary: w)
  case Nil
  then show ?case by simp
next
  case (Cons a nvs)
  obtain n v where a: "a = (n, v)" by (cases a)
  from Cons(3) a have n: "n \<noteq> ''package''" and rst: "''package'' \<notin> fst ` set nvs" by auto
  from Cons(2) have gl: "globals w = Some g" and d: "lr \<noteq> g" "pr \<noteq> g" by (simp_all add: linked_def)
  from Cons(4) a gl obtain w1 where
    s: "set_prop g n v w = Inr w1" and r: "setGlobals nvs w1 = Returns w'"
    by (auto simp: setGlobal_def split: sum.splits)
  note o = set_prop_other [OF s]
  have "globals w1 = Some g"
    using heap_only_fields(6) [OF same_objects_heap_only [OF set_prop_same_objects [OF s]]] gl
    by simp
  with Cons(2) n d o [of g "''package''"] o [of pr "''loaded''"] o [of lr "''_G''"]
    set_prop_heap_None [OF s, of g]
  have l1: "linked w1 g pr lr" by (simp add: linked_def)
  from Cons(1) [OF l1 rst r] have
    "linked w' g pr lr" "\<forall>k. own_prop w' lr k = own_prop w1 lr k"
    "\<forall>k. k \<notin> fst ` set nvs \<longrightarrow> own_prop w' g k = own_prop w1 g k" by simp_all
  with a d(1) o [of lr] o [of g] show ?case by simp
qed

text \<open>Unfolding the chain of prototypes, for the evaluation of examples.\<close>

lemma proto_chain_unfold:
  "proto_chain n w r =
     (if n = 0 then []
      else (case proto_of w r of None \<Rightarrow> [] | Some p \<Rightarrow> p # proto_chain (n - 1) w p))"
  by (cases n) (auto split: option.split)

lemmas heap_eval =
  shine_VM_def resetGlobals_def bindLib_def new_Table_def alloc_def own_keys_def
  instanceof_Table_def get_prop_def set_prop_def set_own_def set_prototype_def read_member_def
  write_member_def own_prop_def proto_of_def kind_of_def prototypes_def has_proto_accessor_def
  guard_call_def own_guard_def env_guard_def lib_guard_def put_result_def env_value_def
  getGlobal_def setGlobal_def package_loaded_def Let_def proto_chain_unfold

section \<open>Properties of dispose\<close>

lemma and_then_Returns:
  "and_then r k = (tr, Returns w') \<Longrightarrow>
     \<exists>tr1 w1 tr2. r = (tr1, Returns w1) \<and> k w1 = (tr2, Returns w') \<and> tr = tr1 @ tr2"
  by (auto simp: and_then_def split: prod.splits outcome.splits)

lemma dispose_rest_Returns:
  assumes "dispose_rest x w = (tr, Returns w')"
  shows "closure_graveyard w' = [] \<and> closure_current w' = None \<and> coroutine_graveyard w' = [] \<and>
         fileManager w' = None \<and>
         (\<exists>v. fileManager_dispose x (w\<lparr>files := None, thread := None, globals := None, env := None,
                 coroutineStack := None\<rparr>) = Returns v \<and>
              files w' = files v \<and> thread w' = thread v)"
  using assms
  by (auto simp: dispose_rest_def Let_def split: option.splits outcome.splits)

lemma dispose_Returns:
  assumes "dispose x w = (tr, Returns w')"
  shows "\<exists>tr' v. dispose_rest x v = (tr', Returns w')"
proof -
  from and_then_Returns [OF assms [unfolded dispose_def]] obtain w1 tr2 where
    "and_then (dispose_thread x w1) (dispose_rest x) = (tr2, Returns w')" by blast
  from and_then_Returns [OF this] show ?thesis by blast
qed

text \<open>
  C9, as the code has it.  A call of \<^verbatim>\<open>dispose()\<close> that returns leaves the three
  static pools cleared: \<^verbatim>\<open>shine.Closure._graveyard\<close> and
  \<^verbatim>\<open>shine.Coroutine._graveyard\<close> are empty and \<^verbatim>\<open>shine.Closure._current\<close> is
  undefined; the constructor does not touch the pools, so a VM constructed next finds
  them so.  The call has deleted \<^verbatim>\<open>fileManager\<close>: a second call on the same VM
  (whose file manager, when disposed, has left \<^verbatim>\<open>_files\<close> and \<^verbatim>\<open>_thread\<close> deleted)
  disposes nothing and throws a \<^verbatim>\<open>TypeError\<close> at
  \<^verbatim>\<open>this.fileManager.dispose()\<close>.
\<close>

theorem dispose_clears_pools_and_second_call_faults:
  assumes "fileManager_keeps_files x" and "dispose x w = (tr, Returns w')"
  shows "closure_graveyard w' = [] \<and> closure_current w' = None \<and> coroutine_graveyard w' = [] \<and>
         closure_graveyard (world_of (shine_VM lib e w')) = [] \<and>
         closure_current (world_of (shine_VM lib e w')) = None \<and>
         coroutine_graveyard (world_of (shine_VM lib e w')) = [] \<and>
         dispose x w' =
           ([], Throws (TypeError ''dispose'')
                  (w'\<lparr>files := None, thread := None, globals := None, env := None,
                       coroutineStack := None\<rparr>))"
proof -
  from dispose_Returns [OF assms(2)] obtain tr' v where r: "dispose_rest x v = (tr', Returns w')"
    by blast
  from dispose_rest_Returns [OF r] obtain u where
    p: "closure_graveyard w' = [] \<and> closure_current w' = None \<and> coroutine_graveyard w' = []" and
    m: "fileManager w' = None" and
    u: "fileManager_dispose x (v\<lparr>files := None, thread := None, globals := None, env := None,
          coroutineStack := None\<rparr>) = Returns u" and
    f: "files w' = files u" "thread w' = thread u" by blast
  from assms(1) have
    "files (world_of (fileManager_dispose x (v\<lparr>files := None, thread := None, globals := None,
       env := None, coroutineStack := None\<rparr>))) = None \<and>
     thread (world_of (fileManager_dispose x (v\<lparr>files := None, thread := None, globals := None,
       env := None, coroutineStack := None\<rparr>))) = None"
    unfolding fileManager_keeps_files_def by simp
  with u f have d: "files w' = None" "thread w' = None" by simp_all
  from d m have "dispose x w' =
      ([], Throws (TypeError ''dispose'')
             (w'\<lparr>files := None, thread := None, globals := None, env := None,
                  coroutineStack := None\<rparr>))"
    by (simp add: dispose_def and_then_def dispose_thread_def dispose_rest_def)
  with p shine_VM_pools [of lib e w'] show ?thesis by simp
qed

theorem dispose_clears_pools_and_second_call_faults_witness:
  "fileManager_keeps_files quiet_ext \<and>
   dispose quiet_ext loaded_world =
     ([FileDisposed ready_file, FileDisposed empty_file,
       ThreadDisposed (Function ready_file 100 None), FileManagerDisposed],
      Returns disposed_world) \<and>
   closure_graveyard disposed_world = [] \<and> closure_current disposed_world = None \<and>
   coroutine_graveyard disposed_world = [] \<and>
   closure_graveyard (world_of (shine_VM small_lib None disposed_world)) = [] \<and>
   dispose quiet_ext disposed_world = ([], Throws (TypeError ''dispose'') disposed_world)"
proof -
  have k: "fileManager_keeps_files quiet_ext"
    by (simp add: fileManager_keeps_files_def quiet_ext_def)
  have d: "dispose quiet_ext loaded_world =
     ([FileDisposed ready_file, FileDisposed empty_file,
       ThreadDisposed (Function ready_file 100 None), FileManagerDisposed],
      Returns disposed_world)"
    by (simp add: dispose_def and_then_def dispose_thread_def dispose_rest_def loaded_world_def
        disposed_world_def idle_world_def quiet_ext_def)
  have s: "disposed_world\<lparr>files := None, thread := None, globals := None, env := None,
      coroutineStack := None\<rparr> = disposed_world"
    by (simp add: disposed_world_def idle_world_def)
  from dispose_clears_pools_and_second_call_faults [OF k d, of small_lib None] k d s
  show ?thesis by simp
qed

text \<open>
  The claim fails where it has a second call of \<^verbatim>\<open>dispose()\<close> not fault: after one
  call on a VM with two files and a thread, the next call throws a \<^verbatim>\<open>TypeError\<close>.
\<close>

theorem dispose_twice_faults:
  "dispose quiet_ext loaded_world =
     ([FileDisposed ready_file, FileDisposed empty_file,
       ThreadDisposed (Function ready_file 100 None), FileManagerDisposed],
      Returns disposed_world) \<and>
   dispose quiet_ext disposed_world = ([], Throws (TypeError ''dispose'') disposed_world)"
  by (simp add: dispose_def and_then_def dispose_thread_def dispose_rest_def loaded_world_def
      disposed_world_def idle_world_def quiet_ext_def)

subsection \<open>The claims about the constructed VM\<close>

text \<open>
  C5, as the code has it.  A VM that the constructor has made has no \<^verbatim>\<open>_files\<close>:
  its initialisation in the constructor is commented out, and \<^verbatim>\<open>load\<close> does not set
  it.  So \<^verbatim>\<open>execute()\<close> without a file, on a new VM and after a call of
  \<^verbatim>\<open>load\<close>, throws the \<^verbatim>\<open>TypeError\<close> of the engine for reading \<^verbatim>\<open>length\<close>
  of \<^verbatim>\<open>undefined\<close>, with no thread constructed, and not the error
  \<^verbatim>\<open>'No files loaded.'\<close> of line 128.
\<close>

theorem execute_without_file_on_new_VM:
  "files (world_of (shine_VM lib e w)) = None \<and>
   execute x coCfg None (world_of (shine_VM lib e w)) =
     ([], Throws (TypeError ''length'') (world_of (shine_VM lib e w))) \<and>
   execute x coCfg None (world_of (load url exec cc (world_of (shine_VM lib e w)))) =
     ([], Throws (TypeError ''length'') (world_of (load url exec cc (world_of (shine_VM lib e w))))) \<and>
   shine_VM small_lib None idle_world = Returns (world_of (shine_VM small_lib None idle_world)) \<and>
   execute quiet_ext None None (world_of (shine_VM small_lib None idle_world)) \<noteq>
     ([], Throws (new_Error ''No files loaded.'') (world_of (shine_VM small_lib None idle_world)))"
proof -
  have f: "files (world_of (shine_VM lib e w)) = None" by (rule shine_VM_files)
  have 1: "execute x coCfg None (world_of (shine_VM lib e w)) =
     ([], Throws (TypeError ''length'') (world_of (shine_VM lib e w)))"
    using f by (rule execute_without_files)
  have "files (world_of (load url exec cc (world_of (shine_VM lib e w)))) = None"
    using f by (simp add: load_files)
  then have 2: "execute x coCfg None (world_of (load url exec cc (world_of (shine_VM lib e w)))) =
     ([], Throws (TypeError ''length'') (world_of (load url exec cc (world_of (shine_VM lib e w)))))"
    by (rule execute_without_files)
  have "\<exists>w'. shine_VM small_lib None idle_world = Returns w'"
    by (simp add: heap_eval small_lib_def idle_world_def engine_heap_def)
  then have 3: "shine_VM small_lib None idle_world =
      Returns (world_of (shine_VM small_lib None idle_world))" by auto
  have "execute quiet_ext None None (world_of (shine_VM small_lib None idle_world)) =
     ([], Throws (TypeError ''length'') (world_of (shine_VM small_lib None idle_world)))"
    using shine_VM_files by (rule execute_without_files)
  then have 4: "execute quiet_ext None None (world_of (shine_VM small_lib None idle_world)) \<noteq>
     ([], Throws (new_Error ''No files loaded.'') (world_of (shine_VM small_lib None idle_world)))"
    by (simp add: new_Error_def TypeError_def)
  from f 1 2 3 4 show ?thesis by (intro conjI)
qed

subsection \<open>The claims about the global namespace\<close>

lemma standard_engine_idle: "standard_engine idle_world"
  unfolding standard_engine_def
  by (rule exI [of _ 2])
     (simp add: idle_world_def engine_heap_def own_prop_def proto_of_def kind_of_def)

text \<open>
  C6, as the code has it.  The process has the prototypes as the engine makes them, and
  the constructor returns.  Then every own key of the host's environment other than
  \<^verbatim>\<open>__proto__\<close> for which the guard \<^verbatim>\<open>env.hasOwnProperty(key)\<close> of line 57 answers
  \<^verbatim>\<open>true\<close> is an own property of the globals with the host's value, and reading the
  global of that name gives the host's value, whatever the library binds under the name.
\<close>

theorem host_env_takes_precedence:
  assumes "standard_engine w" and "shine_VM lib (Some ps) w = Returns w'"
    and "map_of ps k = Some v" and "k \<noteq> ''__proto__''" and "env_guard w' ps k = Inr True"
  shows "getGlobal k w' = Inr v \<and> (\<exists>g. globals w' = Some g \<and> own_prop w' g k = Some v)"
proof -
  have ps: "ps = (case Some ps of None \<Rightarrow> [] | Some ps \<Rightarrow> ps)" by simp
  from assms(1,2) ps obtain g where
    g: "globals w' = Some g" and
    b: "\<forall>k. k \<noteq> ''__proto__'' \<and> env_binds w' ps k \<longrightarrow> own_prop w' g k = Some (env_value ps k)"
    by (rule shine_VM_env)
  from assms(3) have "k \<in> fst ` set ps" by (auto dest: map_of_SomeD intro: rev_image_eqI)
  with assms(5) have "env_binds w' ps k" by (simp add: env_binds_def)
  with b assms(3,4) have o: "own_prop w' g k = Some v" by (simp add: env_value_def)
  from get_prop_own [OF o] g o show ?thesis by (simp add: getGlobal_def)
qed

theorem host_env_takes_precedence_witness:
  "standard_engine idle_world \<and>
   shine_VM small_lib (Some [(''print'', JNum 1), (''answer'', JNum 42)]) idle_world =
     Returns (world_of (shine_VM small_lib (Some [(''print'', JNum 1), (''answer'', JNum 42)]) idle_world)) \<and>
   map_of [(''print'', JNum 1), (''answer'', JNum 42)] ''print'' = Some (JNum 1) \<and>
   ''print'' \<noteq> ''__proto__'' \<and>
   env_guard (world_of (shine_VM small_lib (Some [(''print'', JNum 1), (''answer'', JNum 42)]) idle_world))
     [(''print'', JNum 1), (''answer'', JNum 42)] ''print'' = Inr True \<and>
   getGlobal ''print'' (world_of (shine_VM small_lib (Some [(''print'', JNum 1), (''answer'', JNum 42)]) idle_world))
     = Inr (JNum 1) \<and>
   getGlobal ''answer'' (world_of (shine_VM small_lib (Some [(''print'', JNum 1), (''answer'', JNum 42)]) idle_world))
     = Inr (JNum 42) \<and>
   getGlobal ''print'' (world_of (shine_VM small_lib None idle_world)) = Inr (JObj 6)"
proof -
  let ?ps = "[(''print'', JNum 1), (''answer'', JNum 42)]"
  have r: "\<exists>w'. shine_VM small_lib (Some ?ps) idle_world = Returns w'"
    by (simp add: heap_eval small_lib_def idle_world_def engine_heap_def)
  then have r': "shine_VM small_lib (Some ?ps) idle_world =
      Returns (world_of (shine_VM small_lib (Some ?ps) idle_world))" by auto
  have m: "map_of ?ps ''print'' = Some (JNum 1)" by simp
  have p: "''print'' \<noteq> ''__proto__''" by simp
  have e: "env_guard (world_of (shine_VM small_lib (Some ?ps) idle_world)) ?ps ''print'' = Inr True"
    by (simp add: heap_eval small_lib_def idle_world_def engine_heap_def)
  have a: "getGlobal ''answer'' (world_of (shine_VM small_lib (Some ?ps) idle_world)) = Inr (JNum 42)"
    by (simp add: heap_eval small_lib_def idle_world_def engine_heap_def)
  have n: "getGlobal ''print'' (world_of (shine_VM small_lib None idle_world)) = Inr (JObj 6)"
    by (simp add: heap_eval small_lib_def idle_world_def engine_heap_def)
  from host_env_takes_precedence [OF standard_engine_idle r' m p e]
  have "getGlobal ''print'' (world_of (shine_VM small_lib (Some ?ps) idle_world)) = Inr (JNum 1)"
    by (rule conjunct1)
  with standard_engine_idle r' m p e a n show ?thesis by (intro conjI)
qed

text \<open>
  The claim fails where it has every key of every environment bound.  An environment
  with an own key \<^verbatim>\<open>__proto__\<close> of value \<open>5\<close> (as \<^verbatim>\<open>JSON.parse\<close> makes one): the
  constructor returns, the assignment of line 57 has run the setter that the globals
  inherit, which ignores a number, and \<^verbatim>\<open>getGlobal('__proto__')\<close> is the prototype of
  the globals.  An environment whose own \<^verbatim>\<open>hasOwnProperty\<close> is \<open>1\<close>: the guard of
  line 57 calls a number, and the constructor throws.  An environment whose own
  \<^verbatim>\<open>hasOwnProperty\<close> is a function of the host that answers \<^verbatim>\<open>false\<close>: the
  constructor returns and the key \<^verbatim>\<open>x\<close> of the environment is no global.
\<close>

theorem host_env_key_not_bound:
  "shine_VM small_lib (Some [(''__proto__'', JNum 5), (''x'', JNum 2)]) idle_world =
     Returns (world_of (shine_VM small_lib (Some [(''__proto__'', JNum 5), (''x'', JNum 2)]) idle_world)) \<and>
   getGlobal ''__proto__''
     (world_of (shine_VM small_lib (Some [(''__proto__'', JNum 5), (''x'', JNum 2)]) idle_world)) =
     Inr (JObj (Table_prototype idle_world)) \<and>
   JObj (Table_prototype idle_world) \<noteq> JNum 5 \<and>
   shine_VM small_lib (Some [(''hasOwnProperty'', JNum 1), (''x'', JNum 2)]) idle_world =
     Throws (TypeError ''hasOwnProperty'')
       (world_of (shine_VM small_lib (Some [(''hasOwnProperty'', JNum 1), (''x'', JNum 2)]) idle_world)) \<and>
   shine_VM small_lib (Some [(''hasOwnProperty'', JObj 5), (''x'', JNum 2)]) host_world =
     Returns (world_of (shine_VM small_lib (Some [(''hasOwnProperty'', JObj 5), (''x'', JNum 2)]) host_world)) \<and>
   getGlobal ''x''
     (world_of (shine_VM small_lib (Some [(''hasOwnProperty'', JObj 5), (''x'', JNum 2)]) host_world)) =
     Inr JUndefined"
proof -
  have 1: "\<exists>w'. shine_VM small_lib (Some [(''__proto__'', JNum 5), (''x'', JNum 2)]) idle_world = Returns w'"
    by (simp add: heap_eval small_lib_def idle_world_def engine_heap_def)
  have 2: "getGlobal ''__proto__''
     (world_of (shine_VM small_lib (Some [(''__proto__'', JNum 5), (''x'', JNum 2)]) idle_world)) =
     Inr (JObj (Table_prototype idle_world))"
    by (simp add: heap_eval small_lib_def idle_world_def engine_heap_def)
  have 3: "\<exists>w'. shine_VM small_lib (Some [(''hasOwnProperty'', JNum 1), (''x'', JNum 2)]) idle_world =
     Throws (TypeError ''hasOwnProperty'') w'"
    by (simp add: heap_eval small_lib_def idle_world_def engine_heap_def)
  have 4: "\<exists>w'. shine_VM small_lib (Some [(''hasOwnProperty'', JObj 5), (''x'', JNum 2)]) host_world = Returns w'"
    by (simp add: heap_eval small_lib_def host_world_def idle_world_def engine_heap_def)
  have 5: "getGlobal ''x''
     (world_of (shine_VM small_lib (Some [(''hasOwnProperty'', JObj 5), (''x'', JNum 2)]) host_world)) =
     Inr JUndefined"
    by (simp add: heap_eval small_lib_def host_world_def idle_world_def engine_heap_def)
  from 1 2 3 4 5 show ?thesis by auto
qed

text \<open>
  C7, as the code has it.  The process has the prototypes as the engine makes them; the
  library has a \<^verbatim>\<open>package\<close> object with a \<^verbatim>\<open>loaded\<close> table or object, and neither
  the library nor its \<^verbatim>\<open>package\<close> has an entry \<^verbatim>\<open>hasOwnProperty\<close>; the constructor
  returns, and line 57 has not assigned a key \<^verbatim>\<open>package\<close> of the host's environment.
  Then, when the constructor returns and after calls of \<^verbatim>\<open>setGlobal\<close> with names other
  than \<^verbatim>\<open>package\<close> that return, \<^verbatim>\<open>package.loaded._G\<close> is the object that
  \<^verbatim>\<open>_globals\<close> is.  Every top-level entry of the library that \<^verbatim>\<open>_bindLib\<close> binds to
  a table (under a name other than \<^verbatim>\<open>__proto__\<close> and \<^verbatim>\<open>_G\<close>) is bound to a
  \<^verbatim>\<open>shine.Table\<close> that is the entry of \<^verbatim>\<open>package.loaded\<close> under its name, at both
  points; that table is the global of the name when the constructor returns unless line 57
  has assigned the name from the host's environment, and it still is after the calls of
  \<^verbatim>\<open>setGlobal\<close> unless one of them was for the name.
\<close>

theorem package_loaded_links_globals:
  assumes "standard_engine w" and "shine_VM lib e w = Returns w'"
    and "ps = (case e of None \<Rightarrow> [] | Some ps \<Rightarrow> ps)"
    and "distinct (map fst lib)" and "(''package'', NestedLibrary pk) \<in> set lib"
    and "distinct (map fst pk)" and "(''loaded'', vl) \<in> set pk" and "is_table_entry vl"
    and "''hasOwnProperty'' \<notin> fst ` set lib" and "''hasOwnProperty'' \<notin> fst ` set pk"
    and "\<not> env_binds w' ps ''package''"
    and "''package'' \<notin> fst ` set nvs" and "setGlobals nvs w' = Returns w''"
  shows "\<exists>g. globals w' = Some g \<and> globals w'' = Some g \<and>
           package_loaded w' ''_G'' = Inr (JObj g) \<and> package_loaded w'' ''_G'' = Inr (JObj g) \<and>
           (\<forall>i en. (i, en) \<in> set lib \<and> is_table_entry en \<and> i \<noteq> ''__proto__'' \<and> i \<noteq> ''_G'' \<longrightarrow>
              (\<exists>t. instanceof_Table w' (JObj t) \<and>
                   package_loaded w' i = Inr (JObj t) \<and> package_loaded w'' i = Inr (JObj t) \<and>
                   (\<not> env_binds w' ps i \<longrightarrow>
                      getGlobal i w' = Inr (JObj t) \<and>
                      (i \<notin> fst ` set nvs \<longrightarrow> getGlobal i w'' = Inr (JObj t)))))"
proof -
  let ?v = "w\<lparr>heap := (heap w)(next_ref w \<mapsto> \<lparr>kind = Plain, proto = Some (Object_prototype w), props = []\<rparr>),
          next_ref := Suc (next_ref w), fileManager := Some (next_ref w), pending_loads := [],
          env := Some ps,
          coroutineStack := Some [], status := RUNNING, resumeStack := [],
          callbackQueue := [], files := None, thread := None, globals := None\<rparr>"
  from assms(2) have rv: "resetGlobals lib ?v = Returns w'"
    by (simp add: shine_VM_resetGlobals assms(3))
  have sv: "standard_engine ?v" using assms(1) by (rule standard_engine_start)
  have ev: "env ?v = Some ps" by simp
  from sv rv ev assms(9,10,4,5,6,7,8) obtain g pr lr where
    gl: "globals w' = Some g" and h: "heap w' g \<noteq> None" and d: "lr \<noteq> g" "pr \<noteq> g" and
    pl: "own_prop w' pr ''loaded'' = Some (JObj lr)" and G: "own_prop w' lr ''_G'' = Some (JObj g)" and
    pk: "\<not> env_binds w' ps ''package'' \<longrightarrow> own_prop w' g ''package'' = Some (JObj pr)" and
    tb: "\<forall>i en. (i, en) \<in> set lib \<and> is_table_entry en \<and> i \<noteq> ''__proto__'' \<longrightarrow>
           (\<exists>t. instanceof_Table w' (JObj t) \<and>
                (i \<noteq> ''_G'' \<longrightarrow> own_prop w' lr i = Some (JObj t)) \<and>
                (\<not> env_binds w' ps i \<longrightarrow> own_prop w' g i = Some (JObj t)))"
    by (rule resetGlobals_links_namespace)
  from gl h d pl G pk assms(11) have l: "linked w' g pr lr" by (simp add: linked_def)
  from setGlobals_keeps_link [OF l assms(12,13)] have
    l'': "linked w'' g pr lr" and
    klr: "\<And>k. own_prop w'' lr k = own_prop w' lr k" and
    kg: "\<And>k. k \<notin> fst ` set nvs \<Longrightarrow> own_prop w'' g k = own_prop w' g k" by simp_all
  from l'' have gl'': "globals w'' = Some g" by (simp add: linked_def)
  have 1: "package_loaded w' ''_G'' = Inr (JObj g)"
    using linked_package_loaded [OF l] get_prop_own [OF G] by simp
  from G klr have G'': "own_prop w'' lr ''_G'' = Some (JObj g)" by simp
  have 2: "package_loaded w'' ''_G'' = Inr (JObj g)"
    using linked_package_loaded [OF l''] get_prop_own [OF G''] by simp
  have 3: "\<forall>i en. (i, en) \<in> set lib \<and> is_table_entry en \<and> i \<noteq> ''__proto__'' \<and> i \<noteq> ''_G'' \<longrightarrow>
              (\<exists>t. instanceof_Table w' (JObj t) \<and>
                   package_loaded w' i = Inr (JObj t) \<and> package_loaded w'' i = Inr (JObj t) \<and>
                   (\<not> env_binds w' ps i \<longrightarrow>
                      getGlobal i w' = Inr (JObj t) \<and>
                      (i \<notin> fst ` set nvs \<longrightarrow> getGlobal i w'' = Inr (JObj t))))"
  proof (intro allI impI)
    fix i en
    assume a: "(i, en) \<in> set lib \<and> is_table_entry en \<and> i \<noteq> ''__proto__'' \<and> i \<noteq> ''_G''"
    with tb obtain t where
      it: "instanceof_Table w' (JObj t)" and
      ol: "own_prop w' lr i = Some (JObj t)" and
      og: "\<not> env_binds w' ps i \<longrightarrow> own_prop w' g i = Some (JObj t)" by blast
    from ol klr have ol'': "own_prop w'' lr i = Some (JObj t)" by simp
    have p: "package_loaded w' i = Inr (JObj t)"
      using linked_package_loaded [OF l] get_prop_own [OF ol] by simp
    have p'': "package_loaded w'' i = Inr (JObj t)"
      using linked_package_loaded [OF l''] get_prop_own [OF ol''] by simp
    have q: "\<not> env_binds w' ps i \<longrightarrow>
               getGlobal i w' = Inr (JObj t) \<and>
               (i \<notin> fst ` set nvs \<longrightarrow> getGlobal i w'' = Inr (JObj t))"
    proof (intro impI conjI)
      assume "\<not> env_binds w' ps i"
      with og have o: "own_prop w' g i = Some (JObj t)" by simp
      from get_prop_own [OF o] gl show "getGlobal i w' = Inr (JObj t)" by (simp add: getGlobal_def)
      assume "i \<notin> fst ` set nvs"
      from kg [OF this] o have "own_prop w'' g i = Some (JObj t)" by simp
      from get_prop_own [OF this] gl'' show "getGlobal i w'' = Inr (JObj t)"
        by (simp add: getGlobal_def)
    qed
    from it p p'' q
    show "\<exists>t. instanceof_Table w' (JObj t) \<and>
             package_loaded w' i = Inr (JObj t) \<and> package_loaded w'' i = Inr (JObj t) \<and>
             (\<not> env_binds w' ps i \<longrightarrow>
                getGlobal i w' = Inr (JObj t) \<and>
                (i \<notin> fst ` set nvs \<longrightarrow> getGlobal i w'' = Inr (JObj t)))" by blast
  qed
  from gl gl'' 1 2 3 show ?thesis by blast
qed

theorem package_loaded_links_globals_witness:
  "standard_engine idle_world \<and>
   shine_VM small_lib (Some [(''print'', JNum 1)]) idle_world =
     Returns (world_of (shine_VM small_lib (Some [(''print'', JNum 1)]) idle_world)) \<and>
   distinct (map fst small_lib) \<and>
   (''package'', NestedLibrary [(''loaded'', NestedLibrary [])]) \<in> set small_lib \<and>
   distinct (map fst [(''loaded'', NestedLibrary [])]) \<and>
   (''loaded'', NestedLibrary []) \<in> set [(''loaded'', NestedLibrary [])] \<and>
   is_table_entry (NestedLibrary []) \<and>
   ''hasOwnProperty'' \<notin> fst ` set small_lib \<and>
   ''hasOwnProperty'' \<notin> fst ` set [(''loaded'', NestedLibrary [])] \<and>
   \<not> env_binds (world_of (shine_VM small_lib (Some [(''print'', JNum 1)]) idle_world))
        [(''print'', JNum 1)] ''package'' \<and>
   ''package'' \<notin> fst ` set [(''answer'', JNum 42)] \<and>
   setGlobals [(''answer'', JNum 42)] (world_of (shine_VM small_lib (Some [(''print'', JNum 1)]) idle_world)) =
     Returns (world_of (setGlobals [(''answer'', JNum 42)]
                (world_of (shine_VM small_lib (Some [(''print'', JNum 1)]) idle_world)))) \<and>
   (\<exists>g. globals (world_of (shine_VM small_lib (Some [(''print'', JNum 1)]) idle_world)) = Some g \<and>
        package_loaded (world_of (setGlobals [(''answer'', JNum 42)]
          (world_of (shine_VM small_lib (Some [(''print'', JNum 1)]) idle_world)))) ''_G'' = Inr (JObj g)) \<and>
   globals (world_of (shine_VM small_lib (Some [(''print'', JNum 1)]) idle_world)) = Some 11 \<and>
   package_loaded (world_of (shine_VM small_lib (Some [(''print'', JNum 1)]) idle_world)) ''_G'' = Inr (JObj 11) \<and>
   getGlobal ''string'' (world_of (shine_VM small_lib (Some [(''print'', JNum 1)]) idle_world)) = Inr (JObj 8) \<and>
   package_loaded (world_of (shine_VM small_lib (Some [(''print'', JNum 1)]) idle_world)) ''string'' = Inr (JObj 8) \<and>
   getGlobal ''answer'' (world_of (setGlobals [(''answer'', JNum 42)]
     (world_of (shine_VM small_lib (Some [(''print'', JNum 1)]) idle_world)))) = Inr (JNum 42) \<and>
   getGlobal ''string'' (world_of (setGlobals [(''answer'', JNum 42)]
     (world_of (shine_VM small_lib (Some [(''print'', JNum 1)]) idle_world)))) = Inr (JObj 8) \<and>
   package_loaded (world_of (setGlobals [(''answer'', JNum 42)]
     (world_of (shine_VM small_lib (Some [(''print'', JNum 1)]) idle_world)))) ''string'' = Inr (JObj 8)"
proof -
  let ?ps = "[(''print'', JNum 1)]"
  let ?W = "world_of (shine_VM small_lib (Some ?ps) idle_world)"
  let ?W2 = "world_of (setGlobals [(''answer'', JNum 42)] ?W)"
  have "\<exists>w'. shine_VM small_lib (Some ?ps) idle_world = Returns w'"
    by (simp add: heap_eval small_lib_def idle_world_def engine_heap_def)
  then have r: "shine_VM small_lib (Some ?ps) idle_world = Returns ?W" by auto
  have p: "?ps = (case Some ?ps of None \<Rightarrow> [] | Some ps \<Rightarrow> ps)" by simp
  have 1: "distinct (map fst small_lib)" by (simp add: small_lib_def)
  have 2: "(''package'', NestedLibrary [(''loaded'', NestedLibrary [])]) \<in> set small_lib"
    by (simp add: small_lib_def)
  have 3: "distinct (map fst [(''loaded'', NestedLibrary [])])" by simp
  have 4: "(''loaded'', NestedLibrary []) \<in> set [(''loaded'', NestedLibrary [])]" by simp
  have 5: "is_table_entry (NestedLibrary [])" by simp
  have 6: "''hasOwnProperty'' \<notin> fst ` set small_lib" by (simp add: small_lib_def)
  have 7: "''hasOwnProperty'' \<notin> fst ` set [(''loaded'', NestedLibrary [])]" by simp
  have 8: "\<not> env_binds ?W ?ps ''package''" by (simp add: env_binds_def)
  have 9: "''package'' \<notin> fst ` set [(''answer'', JNum 42)]" by simp
  have "\<exists>w''. setGlobals [(''answer'', JNum 42)] ?W = Returns w''"
    by (simp add: heap_eval small_lib_def idle_world_def engine_heap_def)
  then have s: "setGlobals [(''answer'', JNum 42)] ?W = Returns ?W2" by auto
  from package_loaded_links_globals [OF standard_engine_idle r p 1 2 3 4 5 6 7 8 9 s]
  obtain g where "globals ?W = Some g" and "package_loaded ?W2 ''_G'' = Inr (JObj g)" by blast
  then have t: "\<exists>g. globals ?W = Some g \<and> package_loaded ?W2 ''_G'' = Inr (JObj g)" by blast
  have c1: "globals ?W = Some 11"
    by (simp add: heap_eval small_lib_def idle_world_def engine_heap_def)
  have c2: "package_loaded ?W ''_G'' = Inr (JObj 11)"
    by (simp add: heap_eval small_lib_def idle_world_def engine_heap_def)
  have c3: "getGlobal ''string'' ?W = Inr (JObj 8)"
    by (simp add: heap_eval small_lib_def idle_world_def engine_heap_def)
  have c4: "package_loaded ?W ''string'' = Inr (JObj 8)"
    by (simp add: heap_eval small_lib_def idle_world_def engine_heap_def)
  have c5: "getGlobal ''answer'' ?W2 = Inr (JNum 42)"
    by (simp add: heap_eval small_lib_def idle_world_def engine_heap_def)
  have c6: "getGlobal ''string'' ?W2 = Inr (JObj 8)"
    by (simp add: heap_eval small_lib_def idle_world_def engine_heap_def)
  have c7: "package_loaded ?W2 ''string'' = Inr (JObj 8)"
    by (simp add: heap_eval small_lib_def idle_world_def engine_heap_def)
  from standard_engine_idle r 1 2 3 4 5 6 7 8 9 s t c1 c2 c3 c4 c5 c6 c7
  show ?thesis by (intro conjI)
qed

text \<open>
  The claim fails where it has the link hold at every point after construction, and where
  it has every library table reachable as a global: after \<^verbatim>\<open>setGlobal('package',
  undefined)\<close> reading \<^verbatim>\<open>package.loaded._G\<close> is a fault; and with a host environment
  that binds \<^verbatim>\<open>string\<close>, the table of the library is \<^verbatim>\<open>package.loaded.string\<close>
  while the global \<^verbatim>\<open>string\<close> is the host's value.
\<close>

theorem package_loaded_link_broken:
  "globals (world_of (setGlobal ''package'' JUndefined (world_of (shine_VM small_lib None idle_world)))) = Some 11 \<and>
   package_loaded (world_of (setGlobal ''package'' JUndefined (world_of (shine_VM small_lib None idle_world)))) ''_G''
     = Inl (TypeError ''loaded'') \<and>
   package_loaded (world_of (shine_VM small_lib (Some [(''string'', JNum 0)]) idle_world)) ''string'' = Inr (JObj 8) \<and>
   instanceof_Table (world_of (shine_VM small_lib (Some [(''string'', JNum 0)]) idle_world)) (JObj 8) \<and>
   getGlobal ''string'' (world_of (shine_VM small_lib (Some [(''string'', JNum 0)]) idle_world)) = Inr (JNum 0)"
proof -
  have 1: "globals (world_of (setGlobal ''package'' JUndefined (world_of (shine_VM small_lib None idle_world)))) = Some 11"
    by (simp add: heap_eval small_lib_def idle_world_def engine_heap_def)
  have 2: "package_loaded (world_of (setGlobal ''package'' JUndefined (world_of (shine_VM small_lib None idle_world)))) ''_G''
     = Inl (TypeError ''loaded'')"
    by (simp add: heap_eval small_lib_def idle_world_def engine_heap_def)
  have 3: "package_loaded (world_of (shine_VM small_lib (Some [(''string'', JNum 0)]) idle_world)) ''string'' = Inr (JObj 8)"
    by (simp add: heap_eval small_lib_def idle_world_def engine_heap_def)
  have 4: "instanceof_Table (world_of (shine_VM small_lib (Some [(''string'', JNum 0)]) idle_world)) (JObj 8)"
    by (simp add: heap_eval small_lib_def idle_world_def engine_heap_def)
  have 5: "getGlobal ''string'' (world_of (shine_VM small_lib (Some [(''string'', JNum 0)]) idle_world)) = Inr (JNum 0)"
    by (simp add: heap_eval small_lib_def idle_world_def engine_heap_def)
  from 1 2 3 4 5 show ?thesis by (intro conjI)
qed
end
